theory Spec2Isabelle
  imports Main "HOL-Library.Char_ord" "HOL-Library.List_Lexorder" "HOL-Library.AList"
begin

section \<open>JavaScript values used by the token editor\<close>

text \<open>
  The model follows \<^verbatim>\<open>public/TokenEditor.js\<close>. Strings are ASCII strings; the order of
  \<^typ>\<open>char\<close> is the order of the code units, so the order of \<^typ>\<open>string\<close> is the one
  JavaScript's relational operators and the default \<^verbatim>\<open>Array.prototype.sort\<close> use.
  An optional property is a \<^typ>\<open>'a option\<close> (\<^const>\<open>None\<close> for \<^verbatim>\<open>undefined\<close> or
  \<^verbatim>\<open>null\<close>). A run-time exception is a value of \<open>js_error\<close>.
\<close>

datatype js_error = TypeError

text \<open>Truthiness of an optional string, and \<^verbatim>\<open>a || b\<close> on two of them.\<close>

definition truthy :: "string option \<Rightarrow> bool" where
  "truthy v = (case v of None \<Rightarrow> False | Some s \<Rightarrow> s \<noteq> [])"

definition js_or :: "string option \<Rightarrow> string option \<Rightarrow> string option" where
  "js_or a b = (if truthy a then a else b)"

text \<open>\<^verbatim>\<open>String.prototype.toLowerCase\<close> on ASCII: the letters A to Z move to a to z.\<close>

definition lowerChar :: "char \<Rightarrow> char" where
  "lowerChar c =
     (case map_of (zip ''ABCDEFGHIJKLMNOPQRSTUVWXYZ'' ''abcdefghijklmnopqrstuvwxyz'') c of
        None \<Rightarrow> c
      | Some l \<Rightarrow> l)"

definition toLowerCase :: "string \<Rightarrow> string" where
  "toLowerCase s = map lowerChar s"

text \<open>\<^verbatim>\<open>s.includes(sub)\<close>: \<open>sub\<close> occurs in \<open>s\<close> as a contiguous run.\<close>

fun startsWith :: "string \<Rightarrow> string \<Rightarrow> bool" where
  "startsWith s [] = True"
| "startsWith [] (c # cs) = False"
| "startsWith (d # ds) (c # cs) = (d = c \<and> startsWith ds cs)"

fun str_includes :: "string \<Rightarrow> string \<Rightarrow> bool" where
  "str_includes [] sub = (sub = [])"
| "str_includes (d # ds) sub = (startsWith (d # ds) sub \<or> str_includes ds sub)"

text \<open>
  \<^verbatim>\<open>s.substring(a, b)\<close>: both indices are clamped to the length and swapped when
  \<open>a > b\<close>. \<^verbatim>\<open>s.substring(a)\<close> is \<^term>\<open>drop a s\<close>.
\<close>

definition substring :: "string \<Rightarrow> nat \<Rightarrow> nat \<Rightarrow> string" where
  "substring s a b =
     (let a' = min a (length s); b' = min b (length s)
      in take (max a' b' - min a' b') (drop (min a' b') s))"

text \<open>\<^verbatim>\<open>s[i]\<close> for an index that may be negative or past the end.\<close>

definition charAt :: "string \<Rightarrow> int \<Rightarrow> char option" where
  "charAt s i = (if 0 \<le> i \<and> i < int (length s) then Some (s ! nat i) else None)"

text \<open>\<^verbatim>\<open>String.prototype.trim\<close>: white space and line terminators of ASCII.\<close>

definition isWhiteSpace :: "char \<Rightarrow> bool" where
  "isWhiteSpace c = ((of_char c :: nat) \<in> {9, 10, 11, 12, 13, 32})"

definition trim :: "string \<Rightarrow> string" where
  "trim s = rev (dropWhile isWhiteSpace (rev (dropWhile isWhiteSpace s)))"

text \<open>\<^verbatim>\<open>s.split(sep)\<close> for a one-character separator: never the empty list.\<close>

fun split :: "char \<Rightarrow> string \<Rightarrow> string list" where
  "split sep [] = [[]]"
| "split sep (c # cs) =
     (if c = sep then [] # split sep cs
      else (case split sep cs of [] \<Rightarrow> [[c]] | p # ps \<Rightarrow> (c # p) # ps))"

text \<open>Decimal rendering of a number in a template literal.\<close>

fun numToString :: "nat \<Rightarrow> string" where
  "numToString n =
     (if n < 10 then [''0123456789'' ! n]
      else numToString (n div 10) @ [''0123456789'' ! (n mod 10)])"

text \<open>\<^verbatim>\<open>parts.join(', ')\<close>.\<close>

fun join :: "string \<Rightarrow> string list \<Rightarrow> string" where
  "join sep [] = []"
| "join sep [p] = p"
| "join sep (p # q # ps) = p @ sep @ join sep (q # ps)"

subsection \<open>Plain objects used as dictionaries\<close>

text \<open>
  \<^verbatim>\<open>groupMap\<close> and \<^verbatim>\<open>subgroups\<close> are object literals \<^verbatim>\<open>{}\<close>: their own properties are
  kept in creation order, and a read \<^verbatim>\<open>obj[k]\<close> of a key that is not an own property
  continues in \<^verbatim>\<open>Object.prototype\<close>, whose members are listed here. Each inherited
  member is a truthy value (a function, or the prototype itself for
  \<^verbatim>\<open>__proto__\<close>) that has neither a \<^verbatim>\<open>subgroups\<close> property nor a \<^verbatim>\<open>push\<close> method.
\<close>

type_synonym 'v jsobj = "(string \<times> 'v) list"

definition objectPrototypeKeys :: "string list" where
  "objectPrototypeKeys =
     [''constructor'', ''__defineGetter__'', ''__defineSetter__'', ''hasOwnProperty'',
      ''__lookupGetter__'', ''__lookupSetter__'', ''isPrototypeOf'',
      ''propertyIsEnumerable'', ''toString'', ''valueOf'', ''__proto__'',
      ''toLocaleString'']"

definition inherited :: "string \<Rightarrow> bool" where
  "inherited k = (k \<in> set objectPrototypeKeys)"

text \<open>
  \<^verbatim>\<open>Object.keys\<close>: the own keys that are array indices (canonical decimal numerals
  below \<open>2^32 - 1\<close>) in ascending numeric order, then the other keys in creation order.
\<close>

definition isDigit :: "char \<Rightarrow> bool" where
  "isDigit c = (48 \<le> (of_char c :: nat) \<and> (of_char c :: nat) \<le> 57)"

definition decimal :: "string \<Rightarrow> nat" where
  "decimal s = foldl (\<lambda>a c. 10 * a + ((of_char c :: nat) - 48)) 0 s"

definition isArrayIndex :: "string \<Rightarrow> bool" where
  "isArrayIndex s =
     (s \<noteq> [] \<and> list_all isDigit s \<and> (s = ''0'' \<or> hd s \<noteq> CHR ''0'')
      \<and> decimal s < 4294967295)"

definition Object_keys :: "'v jsobj \<Rightarrow> string list" where
  "Object_keys obj =
     sort_key decimal (filter isArrayIndex (map fst obj))
     @ filter (\<lambda>k. \<not> isArrayIndex k) (map fst obj)"

text \<open>
  \<^verbatim>\<open>Array.prototype.sort(cmp)\<close> is a stable sort: an element stays before a later
  one that \<open>cmp\<close> does not order after it.
\<close>

fun insertBy :: "('a \<Rightarrow> 'a \<Rightarrow> int) \<Rightarrow> 'a \<Rightarrow> 'a list \<Rightarrow> 'a list" where
  "insertBy cmp x [] = [x]"
| "insertBy cmp x (y # ys) = (if cmp x y \<le> 0 then x # y # ys else y # insertBy cmp x ys)"

definition sortBy :: "('a \<Rightarrow> 'a \<Rightarrow> int) \<Rightarrow> 'a list \<Rightarrow> 'a list" where
  "sortBy cmp xs = foldr (insertBy cmp) xs []"

section \<open>Tokens, categories and the component's props\<close>

text \<open>
  A token as the catalog supplies it: \<open>tid\<close> is its \<^verbatim>\<open>id\<close> and \<open>tvalue\<close> its
  \<^verbatim>\<open>value\<close>. Font size and weight are natural numbers.
\<close>

record token =
  tid :: string
  label :: "string option"
  name :: "string option"
  tvalue :: "string option"
  fontFamily :: "string option"
  fontSize :: "nat option"
  fontWeight :: "nat option"

record category =
  cat_id :: string
  cat_label :: string
  cat_color :: string
  cat_tokens :: "token list"

text \<open>
  The props the model reads: the three token lists of \<^verbatim>\<open>tokens\<close> (each may be
  missing) and whether an \<^verbatim>\<open>onSubmit\<close> callback was passed.
\<close>

record props =
  colors :: "token list option"
  typography :: "token list option"
  spacing :: "token list option"
  onSubmit :: bool

definition orEmpty :: "token list option \<Rightarrow> token list" where
  "orEmpty v = (case v of None \<Rightarrow> [] | Some ts \<Rightarrow> ts)"

definition categories :: "props \<Rightarrow> category list" where
  "categories p =
     [\<lparr>cat_id = ''colour'', cat_label = ''Colour tokens'', cat_color = ''#8b5cf6'',
       cat_tokens = orEmpty (colors p)\<rparr>,
      \<lparr>cat_id = ''text'', cat_label = ''Text tokens'', cat_color = ''#3b82f6'',
       cat_tokens = orEmpty (typography p)\<rparr>,
      \<lparr>cat_id = ''spacing'', cat_label = ''Spacing tokens'', cat_color = ''#10b981'',
       cat_tokens = orEmpty (spacing p)\<rparr>]"

text \<open>\<^verbatim>\<open>token.label || token.name || ''\<close> and \<^verbatim>\<open>token.label || token.name\<close>.\<close>

definition tokenLabel :: "token \<Rightarrow> string" where
  "tokenLabel t = (case js_or (label t) (name t) of None \<Rightarrow> [] | Some s \<Rightarrow> s)"

definition tokenName :: "token \<Rightarrow> string option" where
  "tokenName t = js_or (label t) (name t)"

section \<open>The normalizer: parseTokenName and groupTokens\<close>

record parsedName =
  groups :: "string list"
  displayName :: string

definition parseTokenName :: "token \<Rightarrow> parsedName" where
  "parseTokenName t =
     (let nm = tokenLabel t; parts = split (CHR ''/'') nm
      in if length parts = 1 then \<lparr>groups = [], displayName = nm\<rparr>
         else \<lparr>groups = butlast parts, displayName = last parts\<rparr>)"

text \<open>
  The result of \<^verbatim>\<open>groupTokens\<close>: an entry is either \<^verbatim>\<open>{ group: null, tokens }\<close> or
  \<^verbatim>\<open>{ group, subgroups }\<close>, and a subgroup is \<^verbatim>\<open>{ subgroup, tokens }\<close> with
  \<^verbatim>\<open>subgroup: null\<close> for the \<^verbatim>\<open>__none__\<close> bucket.
\<close>

datatype subgroup = Subgroup (sg_label: "string option") (sg_tokens: "token list")

datatype tokenGroup = Ungrouped (g_tokens: "token list") | Grouped (g_name: string) (g_subgroups: "subgroup list")

type_synonym subgroupMap = "(token list) jsobj"
type_synonym groupMap = "subgroupMap jsobj"

text \<open>
  The body shared by the one-level and the multi-level branch, for group \<open>g\<close> and
  subgroup key \<open>s\<close> (\<^verbatim>\<open>'__none__'\<close> in the one-level branch):
  \<^verbatim>\<open>if (!groupMap[g]) groupMap[g] = { subgroups: {} };\<close>
  \<^verbatim>\<open>if (!groupMap[g].subgroups[s]) groupMap[g].subgroups[s] = [];\<close>
  \<^verbatim>\<open>groupMap[g].subgroups[s].push(token);\<close>
  When \<open>g\<close> names an inherited member, \<^verbatim>\<open>groupMap[g].subgroups\<close> is \<^verbatim>\<open>undefined\<close> and
  reading a property of it throws; when \<open>s\<close> names one, \<^verbatim>\<open>subgroups[s].push\<close> is not a
  function and the call throws.
\<close>

definition addToSubgroup :: "string \<Rightarrow> token \<Rightarrow> subgroupMap \<Rightarrow> js_error + subgroupMap" where
  "addToSubgroup s t subs =
     (case map_of subs s of
        Some ts \<Rightarrow> Inr (AList.update s (ts @ [t]) subs)
      | None \<Rightarrow> if inherited s then Inl TypeError else Inr (AList.update s [t] subs))"

definition addToGroup :: "string \<Rightarrow> string \<Rightarrow> token \<Rightarrow> groupMap \<Rightarrow> js_error + groupMap" where
  "addToGroup g s t gm =
     (case map_of gm g of
        Some subs \<Rightarrow>
          (case addToSubgroup s t subs of
             Inl e \<Rightarrow> Inl e
           | Inr subs' \<Rightarrow> Inr (AList.update g subs' gm))
      | None \<Rightarrow>
          if inherited g then Inl TypeError
          else (case addToSubgroup s t [] of
                  Inl e \<Rightarrow> Inl e
                | Inr subs' \<Rightarrow> Inr (AList.update g subs' gm)))"

text \<open>One iteration of \<^verbatim>\<open>tokenList.forEach\<close>, on the pair of \<^verbatim>\<open>groupMap\<close> and \<^verbatim>\<open>ungrouped\<close>.\<close>

definition groupStep :: "token \<Rightarrow> groupMap \<times> token list \<Rightarrow> js_error + groupMap \<times> token list" where
  "groupStep t st =
     (case groups (parseTokenName t) of
        [] \<Rightarrow> Inr (fst st, snd st @ [t])
      | [g] \<Rightarrow>
          (case addToGroup g ''__none__'' t (fst st) of
             Inl e \<Rightarrow> Inl e | Inr gm \<Rightarrow> Inr (gm, snd st))
      | g # s # _ \<Rightarrow>
          (case addToGroup g s t (fst st) of
             Inl e \<Rightarrow> Inl e | Inr gm \<Rightarrow> Inr (gm, snd st)))"

fun groupLoop :: "token list \<Rightarrow> groupMap \<times> token list \<Rightarrow> js_error + groupMap \<times> token list" where
  "groupLoop [] st = Inr st"
| "groupLoop (t # ts) st =
     (case groupStep t st of Inl e \<Rightarrow> Inl e | Inr st' \<Rightarrow> groupLoop ts st')"

text \<open>
  The comparator of the subgroup sort; \<open>lc\<close> is the host's
  \<^verbatim>\<open>String.prototype.localeCompare\<close>.
\<close>

definition subgroupCompare :: "(string \<Rightarrow> string \<Rightarrow> int) \<Rightarrow> string \<Rightarrow> string \<Rightarrow> int" where
  "subgroupCompare lc a b =
     (if a = ''__none__'' then - 1 else if b = ''__none__'' then 1 else lc a b)"

definition subgroupsOf :: "(string \<Rightarrow> string \<Rightarrow> int) \<Rightarrow> subgroupMap \<Rightarrow> subgroup list" where
  "subgroupsOf lc subs =
     List.map_filter
       (\<lambda>s. map_option (Subgroup (if s = ''__none__'' then None else Some s)) (map_of subs s))
       (sortBy (subgroupCompare lc) (Object_keys subs))"

definition groupsOf :: "(string \<Rightarrow> string \<Rightarrow> int) \<Rightarrow> groupMap \<Rightarrow> tokenGroup list" where
  "groupsOf lc gm =
     List.map_filter
       (\<lambda>g. map_option (\<lambda>subs. Grouped g (subgroupsOf lc subs)) (map_of gm g))
       (sort (Object_keys gm))"

definition groupTokens :: "(string \<Rightarrow> string \<Rightarrow> int) \<Rightarrow> token list \<Rightarrow> js_error + tokenGroup list" where
  "groupTokens lc tokenList =
     (case groupLoop tokenList ([], []) of
        Inl e \<Rightarrow> Inl e
      | Inr st \<Rightarrow>
          Inr (groupsOf lc (fst st) @ (if snd st \<noteq> [] then [Ungrouped (snd st)] else [])))"

section \<open>Flattening and rendering the grouped list\<close>

definition tokensOfGroup :: "tokenGroup \<Rightarrow> token list" where
  "tokensOfGroup g =
     (case g of Ungrouped ts \<Rightarrow> ts | Grouped n sgs \<Rightarrow> concat (map sg_tokens sgs))"

definition flattenedTokens :: "tokenGroup list option \<Rightarrow> token list" where
  "flattenedTokens groupedTokens =
     (case groupedTokens of None \<Rightarrow> [] | Some gs \<Rightarrow> concat (map tokensOfGroup gs))"

text \<open>
  A rendered token row: the token its click handler passes to \<^verbatim>\<open>handleSelect\<close>, the
  index its hover handler passes to \<^verbatim>\<open>setSelectedIndex\<close>, whether it carries the
  \<^verbatim>\<open>selected\<close> class, and the name it shows. \<^verbatim>\<open>renderTokenItem\<close> returns \<^verbatim>\<open>null\<close> for
  a category it does not know. The previews a row shows beside the name (colour, value,
  font size and family) are not part of the model.
\<close>

record tokenItem =
  it_token :: token
  it_index :: nat
  it_selected :: bool
  it_name :: string

datatype element =
  GroupTitle string
| SubgroupTitle string string
| TokenRow "tokenItem option"

definition renderTokenItem :: "category \<Rightarrow> int \<Rightarrow> token \<Rightarrow> nat \<Rightarrow> tokenItem option" where
  "renderTokenItem activeCategory selectedIndex t flatIndex =
     (if cat_id activeCategory = ''colour'' \<or> cat_id activeCategory = ''text''
         \<or> cat_id activeCategory = ''spacing''
      then Some \<lparr>it_token = t, it_index = flatIndex,
                 it_selected = (int flatIndex = selectedIndex),
                 it_name = displayName (parseTokenName t)\<rparr>
      else None)"

text \<open>
  The three nested \<^verbatim>\<open>forEach\<close> loops of \<^verbatim>\<open>renderGroupedTokens\<close>; each returns the
  elements it pushed and the new value of the counter \<^verbatim>\<open>flatIndex\<close>.
\<close>

fun renderTokens :: "category \<Rightarrow> int \<Rightarrow> token list \<Rightarrow> nat \<Rightarrow> element list \<times> nat" where
  "renderTokens ac sel [] flatIndex = ([], flatIndex)"
| "renderTokens ac sel (t # ts) flatIndex =
     (let r = renderTokens ac sel ts (Suc flatIndex)
      in (TokenRow (renderTokenItem ac sel t flatIndex) # fst r, snd r))"

fun renderSubgroups :: "category \<Rightarrow> int \<Rightarrow> string \<Rightarrow> subgroup list \<Rightarrow> nat \<Rightarrow> element list \<times> nat" where
  "renderSubgroups ac sel g [] flatIndex = ([], flatIndex)"
| "renderSubgroups ac sel g (sg # sgs) flatIndex =
     (let title = (case sg_label sg of
                     None \<Rightarrow> []
                   | Some l \<Rightarrow> if l \<noteq> [] then [SubgroupTitle g l] else []);
          r = renderTokens ac sel (sg_tokens sg) flatIndex;
          r' = renderSubgroups ac sel g sgs (snd r)
      in (title @ fst r @ fst r', snd r'))"

fun renderGroups :: "category \<Rightarrow> int \<Rightarrow> tokenGroup list \<Rightarrow> nat \<Rightarrow> element list \<times> nat" where
  "renderGroups ac sel [] flatIndex = ([], flatIndex)"
| "renderGroups ac sel (Ungrouped ts # gs) flatIndex =
     (let r = renderTokens ac sel ts flatIndex;
          r' = renderGroups ac sel gs (snd r)
      in (fst r @ fst r', snd r'))"
| "renderGroups ac sel (Grouped g sgs # gs) flatIndex =
     (let r = renderSubgroups ac sel g sgs flatIndex;
          r' = renderGroups ac sel gs (snd r)
      in (GroupTitle g # fst r @ fst r', snd r'))"

definition renderGroupedTokens :: "category \<Rightarrow> int \<Rightarrow> tokenGroup list option \<Rightarrow> element list option" where
  "renderGroupedTokens ac sel groupedTokens =
     (case groupedTokens of None \<Rightarrow> None | Some gs \<Rightarrow> Some (fst (renderGroups ac sel gs 0)))"

text \<open>The token rows among the rendered elements, in order.\<close>

fun tokenRows :: "element list \<Rightarrow> tokenItem option list" where
  "tokenRows [] = []"
| "tokenRows (TokenRow r # es) = r # tokenRows es"
| "tokenRows (e # es) = tokenRows es"

text \<open>The tokens of the rows that carry the \<^verbatim>\<open>selected\<close> class.\<close>

definition highlighted :: "element list \<Rightarrow> token list" where
  "highlighted es =
     map it_token (filter it_selected (List.map_filter (\<lambda>r. r) (tokenRows es)))"

text \<open>A list paired with the positions \<open>i, i + 1, ...\<close> of its elements.\<close>

definition indexed :: "nat \<Rightarrow> 'a list \<Rightarrow> ('a \<times> nat) list" where
  "indexed i xs = zip xs [i ..< i + length xs]"

section \<open>The editor: buffer, selection and component state\<close>

text \<open>
  The buffer is the child list of the editor element. A child is a text node, a token
  tag (the \<^verbatim>\<open>span.token-tag\<close> that \<^verbatim>\<open>insertToken\<close> builds) or another element
  without that class. Every node has an identity (a number), since \<^verbatim>\<open>slashPosition\<close>
  and the selection hold references to nodes. The text nodes of the model are
  children of the editor element, so the editor is the \<^verbatim>\<open>parentNode\<close> of every
  node in the list, and a node that is not in the list has no parent.
\<close>

record tokenTag =
  dataType :: string
  dataValue :: "string option"
  tagTitle :: string
  tagColor :: string
  tagText :: "string option"

datatype node = TextNode string | TokenTag tokenTag | OtherElement string

record dom =
  childNodes :: "(nat \<times> node) list"
  nextId :: nat

datatype container = Editor | Child nat

record range =
  startContainer :: container
  startOffset :: nat
  collapsed :: bool

text \<open>
  The state of the component: its five state variables (\<open>filterText\<close> is
  \<^verbatim>\<open>filter\<close>; \<open>slashPosition\<close> is the node and the offset), whether
  \<^verbatim>\<open>editorRef.current\<close> is set, the buffer, and the window's selection
  (\<^const>\<open>None\<close> when \<^verbatim>\<open>rangeCount\<close> is 0, else \<^verbatim>\<open>getRangeAt(0)\<close>).
\<close>

record editor =
  showMenu :: bool
  activeCategory :: "category option"
  filterText :: string
  selectedIndex :: int
  slashPosition :: "(nat \<times> nat) option"
  editorRef :: bool
  doc :: dom
  selection :: "range option"

text \<open>
  What the host supplies: \<^verbatim>\<open>String.prototype.localeCompare\<close>, and the editor
  element's \<^verbatim>\<open>innerText\<close> and \<^verbatim>\<open>innerHTML\<close> as functions of its child list.
\<close>

record host =
  localeCompare :: "string \<Rightarrow> string \<Rightarrow> int"
  innerText :: "(nat \<times> node) list \<Rightarrow> string"
  innerHTML :: "(nat \<times> node) list \<Rightarrow> string"

definition textContent :: "node \<Rightarrow> string" where
  "textContent n =
     (case n of
        TextNode s \<Rightarrow> s
      | TokenTag tg \<Rightarrow> (case tagText tg of None \<Rightarrow> [] | Some s \<Rightarrow> s)
      | OtherElement s \<Rightarrow> s)"

text \<open>\<^verbatim>\<open>n.classList?.contains('token-tag')\<close>.\<close>

definition isTokenTag :: "node \<Rightarrow> bool" where
  "isTokenTag n = (case n of TokenTag tg \<Rightarrow> True | TextNode s \<Rightarrow> False | OtherElement s \<Rightarrow> False)"

definition isTextNode :: "node \<Rightarrow> bool" where
  "isTextNode n = (case n of TextNode s \<Rightarrow> True | TokenTag tg \<Rightarrow> False | OtherElement s \<Rightarrow> False)"

fun indexOf :: "nat \<Rightarrow> (nat \<times> node) list \<Rightarrow> nat option" where
  "indexOf nid [] = None"
| "indexOf nid (c # cs) =
     (if fst c = nid then Some 0 else map_option Suc (indexOf nid cs))"

text \<open>\<^verbatim>\<open>children[i]\<close>, and \<^verbatim>\<open>node.previousSibling\<close>.\<close>

definition childAt :: "(nat \<times> node) list \<Rightarrow> nat \<Rightarrow> (nat \<times> node) option" where
  "childAt cs i = (if i < length cs then Some (cs ! i) else None)"

definition previousSibling :: "(nat \<times> node) list \<Rightarrow> nat \<Rightarrow> (nat \<times> node) option" where
  "previousSibling cs nid =
     (case indexOf nid cs of
        None \<Rightarrow> None
      | Some i \<Rightarrow> if i = 0 then None else childAt cs (i - 1))"

text \<open>
  \<^verbatim>\<open>child.remove()\<close>. The selection is a live range: a boundary inside the removed
  node moves to the node's place in the editor, and a boundary in the editor after it
  moves one place down.
\<close>

definition removeNode :: "nat \<Rightarrow> editor \<Rightarrow> editor" where
  "removeNode nid st =
     (case indexOf nid (childNodes (doc st)) of
        None \<Rightarrow> st
      | Some i \<Rightarrow>
          st\<lparr>doc := (doc st)\<lparr>childNodes := filter (\<lambda>c. fst c \<noteq> nid) (childNodes (doc st))\<rparr>,
             selection :=
               (case selection st of
                  None \<Rightarrow> None
                | Some r \<Rightarrow>
                    if startContainer r = Child nid
                    then Some (r\<lparr>startContainer := Editor, startOffset := i\<rparr>)
                    else if startContainer r = Editor \<and> i < startOffset r
                    then Some (r\<lparr>startOffset := startOffset r - 1\<rparr>)
                    else Some r)\<rparr>)"

text \<open>
  The length a node takes in the buffer (a tag or another element counts as one
  position), and the position of a range's start counted from the start of the buffer.
\<close>

definition nodeLength :: "node \<Rightarrow> nat" where
  "nodeLength n = (case n of TextNode s \<Rightarrow> length s | TokenTag tg \<Rightarrow> 1 | OtherElement s \<Rightarrow> 1)"

definition bufferLength :: "(nat \<times> node) list \<Rightarrow> nat" where
  "bufferLength cs = sum_list (map (\<lambda>c. nodeLength (snd c)) cs)"

definition caretPosition :: "(nat \<times> node) list \<Rightarrow> range \<Rightarrow> nat option" where
  "caretPosition cs r =
     (case startContainer r of
        Editor \<Rightarrow> Some (bufferLength (take (startOffset r) cs))
      | Child nid \<Rightarrow> map_option (\<lambda>i. bufferLength (take i cs) + startOffset r) (indexOf nid cs))"

section \<open>Filtering: getFilteredTokens and currentItems\<close>

datatype item = CategoryItem category | TokenItem token

definition getFilteredTokens :: "editor \<Rightarrow> token list" where
  "getFilteredTokens st =
     (case activeCategory st of
        None \<Rightarrow> []
      | Some c \<Rightarrow>
          filter (\<lambda>t. str_includes (toLowerCase (tokenLabel t)) (toLowerCase (filterText st)))
            (cat_tokens c))"

definition currentItems :: "props \<Rightarrow> editor \<Rightarrow> item list" where
  "currentItems p st =
     (case activeCategory st of
        Some c \<Rightarrow> map TokenItem (getFilteredTokens st)
      | None \<Rightarrow>
          map CategoryItem
            (filter (\<lambda>c. if length (cat_tokens c) = 0 then False
                          else str_includes (toLowerCase (cat_label c)) (toLowerCase (filterText st)))
               (categories p)))"

text \<open>
  \<^verbatim>\<open>groupedTokens\<close> is computed on every render; an exception of \<^verbatim>\<open>groupTokens\<close>
  is an exception of the render.
\<close>

definition groupedTokens :: "host \<Rightarrow> editor \<Rightarrow> js_error + tokenGroup list option" where
  "groupedTokens h st =
     (case activeCategory st of
        None \<Rightarrow> Inr None
      | Some c \<Rightarrow>
          (case groupTokens (localeCompare h) (getFilteredTokens st) of
             Inl e \<Rightarrow> Inl e
           | Inr gs \<Rightarrow> Inr (Some gs)))"

text \<open>
  The list the keyboard moves over: \<^verbatim>\<open>flattenedTokens\<close> when a category is active,
  \<^verbatim>\<open>currentItems\<close> otherwise.
\<close>

definition visibleItems :: "host \<Rightarrow> props \<Rightarrow> editor \<Rightarrow> js_error + item list" where
  "visibleItems h p st =
     (case groupedTokens h st of
        Inl e \<Rightarrow> Inl e
      | Inr g \<Rightarrow>
          Inr (case activeCategory st of
                 Some c \<Rightarrow> map TokenItem (flattenedTokens g)
               | None \<Rightarrow> currentItems p st))"

text \<open>\<^verbatim>\<open>items[i]\<close> for a numeric index: \<^verbatim>\<open>undefined\<close> outside the list.\<close>

definition itemAt :: "item list \<Rightarrow> int \<Rightarrow> item option" where
  "itemAt xs i = (if 0 \<le> i \<and> i < int (length xs) then Some (xs ! nat i) else None)"

section \<open>The splice engine: insertToken and handleSelect\<close>

text \<open>The tooltip of a tag, by category.\<close>

definition valueStr :: "token \<Rightarrow> category \<Rightarrow> string" where
  "valueStr t c =
     (if cat_id c = ''colour'' then (case tvalue t of None \<Rightarrow> [] | Some v \<Rightarrow> v)
      else if cat_id c = ''text'' then
        join '', ''
          ((case fontFamily t of None \<Rightarrow> [] | Some f \<Rightarrow> if f \<noteq> [] then [f] else [])
           @ (case fontSize t of None \<Rightarrow> [] | Some n \<Rightarrow> if n \<noteq> 0 then [numToString n @ ''px''] else [])
           @ (case fontWeight t of None \<Rightarrow> []
              | Some w \<Rightarrow> if w \<noteq> 0 then [''weight '' @ numToString w] else []))
      else if cat_id c = ''spacing'' then (case tvalue t of None \<Rightarrow> [] | Some v \<Rightarrow> v)
      else [])"

text \<open>
  \<^verbatim>\<open>parent.insertBefore(beforeNode, node); parent.insertBefore(tag, node);\<close>
  \<^verbatim>\<open>parent.insertBefore(afterNode, node); parent.removeChild(node)\<close>: the node gives
  its place to the three new ones.
\<close>

fun replaceNode :: "nat \<Rightarrow> (nat \<times> node) list \<Rightarrow> (nat \<times> node) list \<Rightarrow> (nat \<times> node) list" where
  "replaceNode nid new [] = []"
| "replaceNode nid new (c # cs) =
     (if fst c = nid then new @ cs else c # replaceNode nid new cs)"

text \<open>
  \<^verbatim>\<open>insertToken(token, category)\<close>. The token is \<^const>\<open>None\<close> when the caller passed
  \<^verbatim>\<open>undefined\<close>, the category when it passed \<^verbatim>\<open>null\<close>; reading a property of either
  throws. The function throws as well when the node of \<^verbatim>\<open>slashPosition\<close> has no
  parent, and at \<^verbatim>\<open>editorRef.current.focus()\<close> when the ref is not set. The span is
  created first, then the two text nodes.
\<close>

definition insertToken :: "token option \<Rightarrow> category option \<Rightarrow> editor \<Rightarrow> js_error + editor" where
  "insertToken tokenArg categoryArg st =
     (case slashPosition st of
        None \<Rightarrow> Inr st
      | Some sp \<Rightarrow>
     (case selection st of
        None \<Rightarrow> Inr st
      | Some r \<Rightarrow>
     (case tokenArg of
        None \<Rightarrow> Inl TypeError
      | Some tok \<Rightarrow>
     (case categoryArg of
        None \<Rightarrow> Inl TypeError
      | Some cat \<Rightarrow>
     (case map_of (childNodes (doc st)) (fst sp) of
        None \<Rightarrow> Inl TypeError
      | Some n \<Rightarrow>
          if \<not> editorRef st then Inl TypeError
          else
            let txt = textContent n;
                cursorOffset = startOffset r;
                before = substring txt 0 (snd sp);
                after = drop cursorOffset txt;
                tag = \<lparr>dataType = cat_id cat, dataValue = tokenName tok,
                       tagTitle = valueStr tok cat, tagColor = cat_color cat,
                       tagText = tokenName tok\<rparr>;
                tagId = nextId (doc st);
                beforeId = tagId + 1;
                afterId = tagId + 2;
                afterText = (if after = [] then '' '' else after)
            in Inr (st\<lparr>doc :=
                         \<lparr>childNodes =
                            replaceNode (fst sp)
                              [(beforeId, TextNode before), (tagId, TokenTag tag),
                               (afterId, TextNode afterText)]
                              (childNodes (doc st)),
                          nextId = tagId + 3\<rparr>,
                       selection :=
                         Some \<lparr>startContainer = Child afterId,
                               startOffset = (if length afterText > 0 then 1 else 0),
                               collapsed = True\<rparr>,
                       showMenu := False,
                       activeCategory := None,
                       slashPosition := None\<rparr>))))))"

text \<open>
  \<^verbatim>\<open>handleSelect(item)\<close>. At the top level the items are categories and inside a
  category they are tokens; \<open>asToken\<close> is a category object read as a token (its
  \<^verbatim>\<open>id\<close> and \<^verbatim>\<open>label\<close>), for the call no handler makes.
\<close>

definition asToken :: "item \<Rightarrow> token" where
  "asToken it =
     (case it of
        TokenItem t \<Rightarrow> t
      | CategoryItem c \<Rightarrow>
          \<lparr>tid = cat_id c, label = Some (cat_label c), name = None, tvalue = None,
           fontFamily = None, fontSize = None, fontWeight = None\<rparr>)"

definition handleSelect :: "item option \<Rightarrow> editor \<Rightarrow> js_error + editor" where
  "handleSelect it st =
     (case activeCategory st of
        None \<Rightarrow>
          (case it of
             None \<Rightarrow> Inl TypeError
           | Some (CategoryItem c) \<Rightarrow>
               Inr (st\<lparr>activeCategory := Some c, selectedIndex := 0, filterText := []\<rparr>)
           | Some (TokenItem t) \<Rightarrow> insertToken (Some t) None st)
      | Some c \<Rightarrow> insertToken (map_option asToken it) (Some c) st)"

section \<open>Submission\<close>

text \<open>
  \<^verbatim>\<open>editorRef.current.innerHTML = ''\<close> removes every child; a selection inside the
  editor collapses to its start.
\<close>

definition clearBuffer :: "editor \<Rightarrow> editor" where
  "clearBuffer st =
     st\<lparr>doc := (doc st)\<lparr>childNodes := []\<rparr>,
        selection :=
          map_option (\<lambda>r. \<lparr>startContainer = Editor, startOffset = 0, collapsed = True\<rparr>)
            (selection st)\<rparr>"

text \<open>
  \<^verbatim>\<open>handleSubmit\<close>: the new state, and the arguments of the call of \<^verbatim>\<open>onSubmit\<close>
  when it is made.
\<close>

definition handleSubmit :: "host \<Rightarrow> props \<Rightarrow> editor \<Rightarrow> editor \<times> (string \<times> string) option" where
  "handleSubmit h p st =
     (if \<not> editorRef st then (st, None)
      else
        let txt = trim (innerText h (childNodes (doc st)));
            html = trim (innerHTML h (childNodes (doc st)))
        in if txt \<noteq> [] \<and> onSubmit p then (clearBuffer st, Some (txt, html))
           else (st, None))"

section \<open>The trigger detector: handleInput\<close>

text \<open>
  \<^verbatim>\<open>handleInput\<close> runs after the browser has changed the buffer and the selection;
  both are read from the state.
\<close>

definition handleInput :: "editor \<Rightarrow> editor" where
  "handleInput st =
     (case selection st of
        None \<Rightarrow> st
      | Some r \<Rightarrow>
     (case startContainer r of
        Editor \<Rightarrow> st
      | Child nid \<Rightarrow>
     (case map_of (childNodes (doc st)) nid of
        None \<Rightarrow> st
      | Some n \<Rightarrow>
          (case n of
             TokenTag tg \<Rightarrow> st
           | OtherElement s \<Rightarrow> st
           | TextNode txt \<Rightarrow>
               let offset = startOffset r;
                   charBefore = charAt txt (int offset - 1)
               in if charBefore = Some (CHR ''/'') then
                    st\<lparr>showMenu := True, activeCategory := None, filterText := [],
                       slashPosition := Some (nid, offset - 1)\<rparr>
                  else
                    (case slashPosition st of
                       None \<Rightarrow> st
                     | Some sp \<Rightarrow>
                         if \<not> showMenu st then st
                         else
                           let textAfterSlash = substring txt (snd sp + 1) offset
                           in if str_includes textAfterSlash '' '' \<or> offset \<le> snd sp then
                                st\<lparr>showMenu := False, activeCategory := None, filterText := []\<rparr>
                              else st\<lparr>filterText := textAfterSlash\<rparr>)))))"

section \<open>The keyboard: handleKeyDown\<close>

record keyEvent =
  key :: string
  metaKey :: bool
  ctrlKey :: bool

text \<open>
  What a handler leaves: the new state, whether it called \<^verbatim>\<open>e.preventDefault()\<close>, and
  the arguments of a call of \<^verbatim>\<open>onSubmit\<close>.
\<close>

record outcome =
  newState :: editor
  defaultPrevented :: bool
  submitted :: "(string \<times> string) option"

text \<open>
  The three checks of the Backspace block: the tag to remove, if one of them finds
  it. The second and the third check ask the same of the same child.
\<close>

definition tagBeforeCaret :: "editor \<Rightarrow> nat option" where
  "tagBeforeCaret st =
     (case selection st of
        None \<Rightarrow> None
      | Some r \<Rightarrow>
          if \<not> collapsed r then None
          else
            (case startContainer r of
               Child nid \<Rightarrow>
                 (case map_of (childNodes (doc st)) nid of
                    None \<Rightarrow> None
                  | Some n \<Rightarrow>
                      if isTextNode n \<and> startOffset r = 0 then
                        (case previousSibling (childNodes (doc st)) nid of
                           None \<Rightarrow> None
                         | Some prev \<Rightarrow> if isTokenTag (snd prev) then Some (fst prev) else None)
                      else None)
             | Editor \<Rightarrow>
                 if editorRef st \<and> startOffset r > 0 then
                   (case childAt (childNodes (doc st)) (startOffset r - 1) of
                      None \<Rightarrow> None
                    | Some prev \<Rightarrow> if isTokenTag (snd prev) then Some (fst prev) else None)
                 else None))"

definition handleKeyDown :: "host \<Rightarrow> props \<Rightarrow> editor \<Rightarrow> keyEvent \<Rightarrow> js_error + outcome" where
  "handleKeyDown h p st ev =
     (case (if key ev = ''Backspace'' \<and> \<not> showMenu st then tagBeforeCaret st else None) of
        Some tagId \<Rightarrow>
          Inr \<lparr>newState = removeNode tagId st, defaultPrevented = True, submitted = None\<rparr>
      | None \<Rightarrow>
          if \<not> showMenu st then
            (if key ev = ''Enter'' \<and> (metaKey ev \<or> ctrlKey ev) then
               Inr \<lparr>newState = fst (handleSubmit h p st), defaultPrevented = True,
                    submitted = snd (handleSubmit h p st)\<rparr>
             else Inr \<lparr>newState = st, defaultPrevented = False, submitted = None\<rparr>)
          else
            (case visibleItems h p st of
               Inl e \<Rightarrow> Inl e
             | Inr items \<Rightarrow>
                 let itemCount = int (length items) in
                 if key ev = ''ArrowDown'' then
                   Inr \<lparr>newState =
                          st\<lparr>selectedIndex :=
                               (if selectedIndex st < itemCount - 1 then selectedIndex st + 1
                                else 0)\<rparr>,
                        defaultPrevented = True, submitted = None\<rparr>
                 else if key ev = ''ArrowUp'' then
                   Inr \<lparr>newState =
                          st\<lparr>selectedIndex :=
                               (if selectedIndex st > 0 then selectedIndex st - 1
                                else itemCount - 1)\<rparr>,
                        defaultPrevented = True, submitted = None\<rparr>
                 else if key ev = ''Enter'' \<and> itemCount > 0 then
                   (case handleSelect (itemAt items (selectedIndex st)) st of
                      Inl e \<Rightarrow> Inl e
                    | Inr st' \<Rightarrow>
                        Inr \<lparr>newState = st', defaultPrevented = True, submitted = None\<rparr>)
                 else if key ev = ''Escape'' then
                   (if activeCategory st \<noteq> None then
                      Inr \<lparr>newState =
                             st\<lparr>activeCategory := None, selectedIndex := 0, filterText := []\<rparr>,
                           defaultPrevented = True, submitted = None\<rparr>
                    else
                      Inr \<lparr>newState = st\<lparr>showMenu := False\<rparr>,
                           defaultPrevented = True, submitted = None\<rparr>)
                 else if key ev = ''Backspace'' \<and> activeCategory st \<noteq> None \<and> filterText st = []
                 then
                   Inr \<lparr>newState = st\<lparr>activeCategory := None, selectedIndex := 0\<rparr>,
                        defaultPrevented = True, submitted = None\<rparr>
                 else Inr \<lparr>newState = st, defaultPrevented = False, submitted = None\<rparr>))"

section \<open>Events and renders\<close>

text \<open>
  The effect with dependencies \<^verbatim>\<open>[filter, activeCategory]\<close> runs after a render in
  which one of them changed and sets \<^verbatim>\<open>selectedIndex\<close> to 0. \<^verbatim>\<open>activeCategory\<close> only
  ever changes between \<^verbatim>\<open>null\<close> and a category, so comparing values is comparing
  identities.
\<close>

definition afterRender :: "editor \<Rightarrow> editor \<Rightarrow> editor" where
  "afterRender old new =
     (if filterText new \<noteq> filterText old \<or> activeCategory new \<noteq> activeCategory old
      then new\<lparr>selectedIndex := 0\<rparr> else new)"

text \<open>
  The events the component handles. An input event comes with the buffer and the
  selection as the browser left them. \<open>MouseEnter i\<close> and \<open>Click i\<close> are the hover
  and click handlers of the row with index \<open>i\<close>, which exist when the menu is shown
  and has such a row; \<open>Back\<close> is the click on the back button, shown inside a
  category.
\<close>

datatype event =
  Input dom "range option"
| KeyDown keyEvent
| MouseEnter nat
| Click nat
| Back

definition handleEvent :: "host \<Rightarrow> props \<Rightarrow> editor \<Rightarrow> event \<Rightarrow> js_error + editor" where
  "handleEvent h p st ev =
     (case visibleItems h p st of
        Inl e \<Rightarrow> Inl e
      | Inr items \<Rightarrow>
          (case ev of
             Input d s \<Rightarrow> Inr (handleInput (st\<lparr>doc := d, selection := s\<rparr>))
           | KeyDown k \<Rightarrow>
               (case handleKeyDown h p st k of Inl e \<Rightarrow> Inl e | Inr out \<Rightarrow> Inr (newState out))
           | MouseEnter i \<Rightarrow>
               if showMenu st \<and> i < length items then Inr (st\<lparr>selectedIndex := int i\<rparr>)
               else Inr st
           | Click i \<Rightarrow>
               if showMenu st \<and> i < length items then handleSelect (Some (items ! i)) st
               else Inr st
           | Back \<Rightarrow>
               if showMenu st \<and> activeCategory st \<noteq> None then
                 Inr (st\<lparr>activeCategory := None, selectedIndex := 0, filterText := []\<rparr>)
               else Inr st))"

text \<open>One event: the handler, the render, the effect.\<close>

definition step :: "host \<Rightarrow> props \<Rightarrow> editor \<Rightarrow> event \<Rightarrow> js_error + editor" where
  "step h p st ev =
     (case handleEvent h p st ev of
        Inl e \<Rightarrow> Inl e
      | Inr st' \<Rightarrow> Inr (afterRender st st'))"





section \<open>Notions of the specification\<close>

text \<open>
  The specification's case-insensitive substring match, in its own words: some
  contiguous part of the label equals the filter text up to the case of letters.
\<close>

definition equalIgnoringCase :: "string \<Rightarrow> string \<Rightarrow> bool" where
  "equalIgnoringCase a b = (map lowerChar a = map lowerChar b)"

definition containsIgnoringCase :: "string \<Rightarrow> string \<Rightarrow> bool" where
  "containsIgnoringCase lbl f = (\<exists>pre mid post. lbl = pre @ mid @ post \<and> equalIgnoringCase mid f)"

section \<open>Notions used to state the results\<close>

text \<open>
  The bucket the normalizer files a token under: none for a name without separator,
  else the first path segment with the second one, or with the \<^verbatim>\<open>__none__\<close> key
  when the name has a single group segment. A name is safe when neither key is the
  name of a member that every object inherits.
\<close>

definition bucketKey :: "token \<Rightarrow> (string \<times> string) option" where
  "bucketKey t =
     (case groups (parseTokenName t) of
        [] \<Rightarrow> None
      | [g] \<Rightarrow> Some (g, ''__none__'')
      | g # s # rest \<Rightarrow> Some (g, s))"

definition safeName :: "token \<Rightarrow> bool" where
  "safeName t =
     (case bucketKey t of None \<Rightarrow> True | Some k \<Rightarrow> \<not> inherited (fst k) \<and> \<not> inherited (snd k))"

definition bucket :: "token list \<Rightarrow> string \<Rightarrow> string \<Rightarrow> token list" where
  "bucket ts g s = filter (\<lambda>t. bucketKey t = Some (g, s)) ts"

definition lookup2 :: "groupMap \<Rightarrow> string \<Rightarrow> string \<Rightarrow> token list option" where
  "lookup2 gm g s = (case map_of gm g of None \<Rightarrow> None | Some subs \<Rightarrow> map_of subs s)"

text \<open>
  The state of the loop of \<^verbatim>\<open>groupTokens\<close> after the tokens \<open>ts\<close>: every bucket holds
  its tokens in list order, no bucket is empty, and no key occurs twice.
\<close>

definition filed :: "token list \<Rightarrow> groupMap \<times> token list \<Rightarrow> bool" where
  "filed ts st =
     (snd st = filter (\<lambda>t. bucketKey t = None) ts
      \<and> distinct (map fst (fst st))
      \<and> (\<forall>g subs. map_of (fst st) g = Some subs \<longrightarrow> distinct (map fst subs) \<and> subs \<noteq> [])
      \<and> (\<forall>g s. lookup2 (fst st) g s = (if bucket ts g s = [] then None else Some (bucket ts g s))))"

text \<open>
  The key of a subgroup label, and a comparison function that is total and
  transitive, as a collation is.
\<close>

definition subgroupKey :: "string option \<Rightarrow> string" where
  "subgroupKey l = (case l of None \<Rightarrow> ''__none__'' | Some s \<Rightarrow> s)"

definition consistentCompare :: "(string \<Rightarrow> string \<Rightarrow> int) \<Rightarrow> bool" where
  "consistentCompare lc =
     ((\<forall>a b. 0 < lc a b \<longrightarrow> lc b a \<le> 0)
      \<and> (\<forall>a b c. lc a b \<le> 0 \<and> lc b c \<le> 0 \<longrightarrow> lc a c \<le> 0))"

section \<open>Example data\<close>

definition exTok :: "string \<Rightarrow> string \<Rightarrow> token" where
  "exTok i n = \<lparr>tid = i, label = None, name = Some n, tvalue = None, fontFamily = None, fontSize = None, fontWeight = None\<rparr>"

definition colourCategory :: "token list \<Rightarrow> category" where
  "colourCategory ts = \<lparr>cat_id = ''colour'', cat_label = ''Colour tokens'', cat_color = ''#8b5cf6'', cat_tokens = ts\<rparr>"

text \<open>
  A host for evaluation: \<^verbatim>\<open>localeCompare\<close> orders by code units, \<^verbatim>\<open>innerText\<close>
  concatenates the text of the children, \<^verbatim>\<open>innerHTML\<close> wraps the text of a tag in
  a span.
\<close>

definition exLocaleCompare :: "string \<Rightarrow> string \<Rightarrow> int" where
  "exLocaleCompare a b = (if a < b then - 1 else if a = b then 0 else 1)"

definition exInnerText :: "(nat \<times> node) list \<Rightarrow> string" where
  "exInnerText cs = concat (map (\<lambda>c. textContent (snd c)) cs)"

definition exInnerHTML :: "(nat \<times> node) list \<Rightarrow> string" where
  "exInnerHTML cs =
     concat (map (\<lambda>c. case snd c of
                         TextNode s \<Rightarrow> s
                       | TokenTag tg \<Rightarrow>
                           ''<span class=token-tag data-type='' @ dataType tg @ ''>''
                           @ textContent (TokenTag tg) @ ''</span>''
                       | OtherElement s \<Rightarrow> s) cs)"

definition exHost :: host where
  "exHost = \<lparr>localeCompare = exLocaleCompare, innerText = exInnerText, innerHTML = exInnerHTML\<rparr>"

text \<open>A catalog with two colour tokens, one text token and one spacing token.\<close>

definition exProps :: props where
  "exProps =
     \<lparr>colors = Some [exTok ''c1'' ''Text/Primary'', exTok ''c2'' ''Primary Blue''],
      typography = Some [exTok ''t1'' ''Body/Bold/Body 4''],
      spacing = Some [exTok ''s1'' ''Space/4''],
      onSubmit = True\<rparr>"

text \<open>The menu open at the top level, just after a \<^verbatim>\<open>/\<close> was typed into an empty editor.\<close>

definition exTopLevel :: editor where
  "exTopLevel =
     \<lparr>showMenu = True, activeCategory = None, filterText = [], selectedIndex = 0,
      slashPosition = Some (0, 0), editorRef = True,
      doc = \<lparr>childNodes = [(0, TextNode ''/'')], nextId = 1\<rparr>,
      selection = Some \<lparr>startContainer = Child 0, startOffset = 1, collapsed = True\<rparr>\<rparr>"

definition exKey :: "string \<Rightarrow> keyEvent" where
  "exKey k = \<lparr>key = k, metaKey = False, ctrlKey = False\<rparr>"

text \<open>Three colour tokens and no spacing token, with \<^verbatim>\<open>col\<close> typed after the trigger.\<close>

definition exScenarioProps :: props where
  "exScenarioProps =
     \<lparr>colors = Some [exTok ''c1'' ''Text/Primary'', exTok ''c2'' ''Text/Secondary'',
                     exTok ''c3'' ''Primary Blue''],
      typography = None, spacing = Some [], onSubmit = True\<rparr>"

definition exFiltering :: editor where
  "exFiltering =
     \<lparr>showMenu = True, activeCategory = None, filterText = ''col'', selectedIndex = 0,
      slashPosition = Some (0, 0), editorRef = True,
      doc = \<lparr>childNodes = [(0, TextNode ''/col'')], nextId = 1\<rparr>,
      selection = Some \<lparr>startContainer = Child 0, startOffset = 4, collapsed = True\<rparr>\<rparr>"

text \<open>
  Inside the colour category with \<^verbatim>\<open>/pri\<close> typed, and the state that inserting the
  first colour token leaves.
\<close>

definition exColours :: category where
  "exColours = colourCategory [exTok ''c1'' ''Text/Primary'', exTok ''c2'' ''Primary Blue'']"

definition exInCategory :: editor where
  "exInCategory =
     \<lparr>showMenu = True, activeCategory = Some exColours, filterText = ''pri'', selectedIndex = 0,
      slashPosition = Some (0, 0), editorRef = True,
      doc = \<lparr>childNodes = [(0, TextNode ''/pri'')], nextId = 1\<rparr>,
      selection = Some \<lparr>startContainer = Child 0, startOffset = 4, collapsed = True\<rparr>\<rparr>"

definition exTag :: tokenTag where
  "exTag =
     \<lparr>dataType = ''colour'', dataValue = Some ''Text/Primary'', tagTitle = [],
      tagColor = ''#8b5cf6'', tagText = Some ''Text/Primary''\<rparr>"

definition exAfterInsert :: editor where
  "exAfterInsert =
     \<lparr>showMenu = False, activeCategory = None, filterText = ''pri'', selectedIndex = 0,
      slashPosition = None, editorRef = True,
      doc = \<lparr>childNodes = [(2, TextNode []), (1, TokenTag exTag), (3, TextNode '' '')],
             nextId = 4\<rparr>,
      selection = Some \<lparr>startContainer = Child 3, startOffset = 1, collapsed = True\<rparr>\<rparr>"

text \<open>The same buffer once the placeholder space is deleted, the caret at its start.\<close>

definition exPlaceholderDeleted :: editor where
  "exPlaceholderDeleted =
     exAfterInsert
       \<lparr>doc := \<lparr>childNodes = [(2, TextNode []), (1, TokenTag exTag), (3, TextNode [])],
                 nextId = 4\<rparr>,
        selection := Some \<lparr>startContainer = Child 3, startOffset = 0, collapsed = True\<rparr>\<rparr>"








section \<open>Facts shared by the results\<close>

lemma tokenLabel_exTok: "tokenLabel (exTok i n) = n"
  by (simp add: tokenLabel_def js_or_def truthy_def exTok_def)


lemma map_of_middle:
  "nid \<notin> fst ` set pre \<Longrightarrow> map_of (pre @ (nid, n) # post) nid = Some n"
  by (induction pre) auto

lemma indexOf_middle:
  "nid \<notin> fst ` set pre \<Longrightarrow> indexOf nid (pre @ (nid, n) # post) = Some (length pre)"
  by (induction pre) auto

section \<open>Flat indices of the rendered list\<close>

lemma indexed_Nil: "indexed i [] = []"
  by (simp add: indexed_def)

lemma indexed_Cons: "indexed i (x # xs) = (x, i) # indexed (Suc i) xs"
  by (simp add: indexed_def upt_rec)

lemma indexed_append: "indexed i (xs @ ys) = indexed i xs @ indexed (i + length xs) ys"
  by (induction xs arbitrary: i) (simp_all add: indexed_Nil indexed_Cons)

lemma tokenRows_append: "tokenRows (xs @ ys) = tokenRows xs @ tokenRows ys"
  by (induction xs rule: tokenRows.induct) simp_all

lemma renderTokens_snd: "snd (renderTokens ac sel ts i) = i + length ts"
  by (induction ts arbitrary: i) (simp_all add: Let_def)

lemma renderTokens_rows:
  "tokenRows (fst (renderTokens ac sel ts i)) =
     map (\<lambda>p. renderTokenItem ac sel (fst p) (snd p)) (indexed i ts)"
  by (induction ts arbitrary: i) (simp_all add: Let_def indexed_Nil indexed_Cons)

lemma renderSubgroups_snd:
  "snd (renderSubgroups ac sel g sgs i) = i + length (concat (map sg_tokens sgs))"
  by (induction sgs arbitrary: i) (simp_all add: Let_def renderTokens_snd)

lemma subgroupTitle_rows:
  "tokenRows (case l of None \<Rightarrow> [] | Some l \<Rightarrow> if l \<noteq> [] then [SubgroupTitle g l] else []) = []"
  by (simp split: option.split)

lemma renderSubgroups_rows:
  "tokenRows (fst (renderSubgroups ac sel g sgs i)) =
     map (\<lambda>p. renderTokenItem ac sel (fst p) (snd p)) (indexed i (concat (map sg_tokens sgs)))"
  by (induction sgs arbitrary: i)
    (simp_all add: Let_def indexed_Nil indexed_append tokenRows_append subgroupTitle_rows
      renderTokens_rows renderTokens_snd)

lemma renderGroups_rows:
  "tokenRows (fst (renderGroups ac sel gs i)) =
     map (\<lambda>p. renderTokenItem ac sel (fst p) (snd p)) (indexed i (concat (map tokensOfGroup gs)))"
proof (induction gs arbitrary: i)
  case Nil
  show ?case by (simp add: indexed_Nil)
next
  case (Cons g gs)
  show ?case
  proof (cases g)
    case (Ungrouped ts)
    then show ?thesis
      by (simp add: Let_def Cons tokensOfGroup_def indexed_append tokenRows_append
          renderTokens_rows renderTokens_snd)
  next
    case (Grouped n sgs)
    then show ?thesis
      by (simp add: Let_def Cons tokensOfGroup_def indexed_append tokenRows_append
          renderSubgroups_rows renderSubgroups_snd)
  qed
qed

lemma selected_indexed:
  "map fst (filter (\<lambda>p. int (snd p) = sel) (indexed i xs)) =
     (if int i \<le> sel \<and> sel < int (i + length xs) then [xs ! (nat sel - i)] else [])"
proof (induction xs arbitrary: i)
  case Nil
  show ?case by (simp add: indexed_Nil)
next
  case (Cons x xs)
  show ?case
  proof (cases "int i = sel")
    case True
    then have "filter (\<lambda>p. int (snd p) = sel) (indexed (Suc i) xs) = []"
      by (auto simp: filter_empty_conv indexed_def dest!: set_zip_rightD)
    with True show ?thesis by (auto simp: indexed_Cons)
  next
    case False
    then have "nat sel - i = Suc (nat sel - Suc i)" if "int i \<le> sel"
      using that by linarith
    with False show ?thesis
      using Cons [of "Suc i"] by (auto simp: indexed_Cons)
  qed
qed

lemma highlighted_known:
  assumes "cat_id ac = ''colour'' \<or> cat_id ac = ''text'' \<or> cat_id ac = ''spacing''"
  shows "map it_token (filter it_selected (List.map_filter (\<lambda>r. r)
           (map (\<lambda>p. renderTokenItem ac sel (fst p) (snd p)) ps))) =
         map fst (filter (\<lambda>p. int (snd p) = sel) ps)"
  using assms by (induction ps) (auto simp: List.map_filter_simps renderTokenItem_def)

text \<open>
  C10. For every grouped token tree, the token rows that \<^verbatim>\<open>renderGroupedTokens\<close>
  produces are, in order, \<^verbatim>\<open>renderTokenItem\<close> applied to the tokens of
  \<^verbatim>\<open>flattenedTokens\<close> paired with their positions \<open>0, 1, 2, ...\<close>: both list the
  same tokens in the same order, and the row with flat index \<open>i\<close> shows the token at
  index \<open>i\<close> of the flattened sequence. So, for each of the three categories, the
  highlighted row is the one of the token at \<^verbatim>\<open>selectedIndex\<close> of the flattened
  sequence (and no row is highlighted when the index is outside it).
\<close>

theorem flattenedTokens_matches_rendered_indices:
  "map_option tokenRows (renderGroupedTokens ac sel (Some gs)) =
     Some (map (\<lambda>p. renderTokenItem ac sel (fst p) (snd p))
            (zip (flattenedTokens (Some gs)) [0 ..< length (flattenedTokens (Some gs))]))
   \<and> (cat_id ac = ''colour'' \<or> cat_id ac = ''text'' \<or> cat_id ac = ''spacing'' \<longrightarrow>
        map_option highlighted (renderGroupedTokens ac sel (Some gs)) =
          Some (if 0 \<le> sel \<and> sel < int (length (flattenedTokens (Some gs)))
                then [flattenedTokens (Some gs) ! nat sel] else []))"
proof -
  let ?fl = "flattenedTokens (Some gs)"
  have rows: "tokenRows (fst (renderGroups ac sel gs 0)) =
      map (\<lambda>p. renderTokenItem ac sel (fst p) (snd p)) (indexed 0 ?fl)"
    using renderGroups_rows [of ac sel gs 0] by (simp add: flattenedTokens_def)
  have first: "map_option tokenRows (renderGroupedTokens ac sel (Some gs)) =
      Some (map (\<lambda>p. renderTokenItem ac sel (fst p) (snd p)) (zip ?fl [0 ..< length ?fl]))"
    using rows by (simp add: renderGroupedTokens_def indexed_def)
  have second: "map_option highlighted (renderGroupedTokens ac sel (Some gs)) =
      Some (if 0 \<le> sel \<and> sel < int (length ?fl) then [?fl ! nat sel] else [])"
    if known: "cat_id ac = ''colour'' \<or> cat_id ac = ''text'' \<or> cat_id ac = ''spacing''"
  proof -
    have "highlighted (fst (renderGroups ac sel gs 0)) =
        map fst (filter (\<lambda>p. int (snd p) = sel) (indexed 0 ?fl))"
      unfolding highlighted_def rows by (rule highlighted_known [OF known])
    also have "\<dots> = (if 0 \<le> sel \<and> sel < int (length ?fl) then [?fl ! nat sel] else [])"
      using selected_indexed [of sel 0 ?fl] by simp
    finally show ?thesis by (simp add: renderGroupedTokens_def)
  qed
  from first second show ?thesis by blast
qed

theorem flattenedTokens_matches_rendered_indices_witness:
  "map_option highlighted
     (renderGroupedTokens (colourCategory []) 1
        (Some [Grouped ''Text'' [Subgroup None [exTok ''1'' ''Text/Primary'', exTok ''2'' ''Text/Secondary'']],
               Ungrouped [exTok ''3'' ''Primary Blue'']]))
   = Some [exTok ''2'' ''Text/Secondary'']"
  using flattenedTokens_matches_rendered_indices [of "colourCategory []" 1
      "[Grouped ''Text'' [Subgroup None [exTok ''1'' ''Text/Primary'', exTok ''2'' ''Text/Secondary'']],
               Ungrouped [exTok ''3'' ''Primary Blue'']]"]
  by (simp add: colourCategory_def flattenedTokens_def tokensOfGroup_def)


section \<open>Keyboard navigation\<close>

text \<open>
  C7. With the menu shown over a non-empty list of \<open>n\<close> visible items and a
  selection index inside it, ArrowDown (\<^verbatim>\<open>next\<close>) moves the index from \<open>n - 1\<close> to
  \<open>0\<close> and otherwise one up, and ArrowUp (\<^verbatim>\<open>previous\<close>) moves it from \<open>0\<close> to
  \<open>n - 1\<close> and otherwise one down. The list is \<^verbatim>\<open>currentItems\<close> (the category rows)
  when no category is active and the flattened grouped tokens otherwise.
\<close>

theorem navigation_wraps_around:
  assumes "showMenu st" and "visibleItems h p st = Inr items" and "items \<noteq> []"
    and "0 \<le> selectedIndex st" and "selectedIndex st < int (length items)"
  shows "(key ev = ''ArrowDown'' \<longrightarrow>
            handleKeyDown h p st ev =
              Inr \<lparr>newState = st\<lparr>selectedIndex :=
                       (if selectedIndex st = int (length items) - 1 then 0
                        else selectedIndex st + 1)\<rparr>,
                   defaultPrevented = True, submitted = None\<rparr>)
       \<and> (key ev = ''ArrowUp'' \<longrightarrow>
            handleKeyDown h p st ev =
              Inr \<lparr>newState = st\<lparr>selectedIndex :=
                       (if selectedIndex st = 0 then int (length items) - 1
                        else selectedIndex st - 1)\<rparr>,
                   defaultPrevented = True, submitted = None\<rparr>)
       \<and> (activeCategory st = None \<longrightarrow> items = currentItems p st)
       \<and> (activeCategory st \<noteq> None \<longrightarrow>
            (\<exists>gs. groupTokens (localeCompare h) (getFilteredTokens st) = Inr gs
                \<and> items = map TokenItem (flattenedTokens (Some gs))))"
proof -
  have down: "handleKeyDown h p st ev =
      Inr \<lparr>newState = st\<lparr>selectedIndex :=
               (if selectedIndex st = int (length items) - 1 then 0 else selectedIndex st + 1)\<rparr>,
           defaultPrevented = True, submitted = None\<rparr>" if "key ev = ''ArrowDown''"
    using assms that by (simp add: handleKeyDown_def Let_def)
  have up: "handleKeyDown h p st ev =
      Inr \<lparr>newState = st\<lparr>selectedIndex :=
               (if selectedIndex st = 0 then int (length items) - 1 else selectedIndex st - 1)\<rparr>,
           defaultPrevented = True, submitted = None\<rparr>" if "key ev = ''ArrowUp''"
    using assms that by (simp add: handleKeyDown_def Let_def)
  have top: "items = currentItems p st" if "activeCategory st = None"
    using assms(2) that by (simp add: visibleItems_def groupedTokens_def)
  have cat: "\<exists>gs. groupTokens (localeCompare h) (getFilteredTokens st) = Inr gs
      \<and> items = map TokenItem (flattenedTokens (Some gs))" if "activeCategory st \<noteq> None"
    using assms(2) that
    by (auto simp: visibleItems_def groupedTokens_def split: option.splits sum.splits)
  from down up top cat show ?thesis by blast
qed


lemma exTopLevel_items:
  "visibleItems exHost exProps exTopLevel = Inr (map CategoryItem (categories exProps))"
  by (simp add: visibleItems_def groupedTokens_def currentItems_def exTopLevel_def categories_def
      exProps_def orEmpty_def toLowerCase_def)

theorem navigation_wraps_around_witness:
  "handleKeyDown exHost exProps exTopLevel (exKey ''ArrowUp'') =
     Inr \<lparr>newState = exTopLevel\<lparr>selectedIndex := 2\<rparr>, defaultPrevented = True, submitted = None\<rparr>
   \<and> handleKeyDown exHost exProps (exTopLevel\<lparr>selectedIndex := 2\<rparr>) (exKey ''ArrowDown'') =
     Inr \<lparr>newState = exTopLevel\<lparr>selectedIndex := 0\<rparr>, defaultPrevented = True, submitted = None\<rparr>"
proof -
  have items: "visibleItems exHost exProps (exTopLevel\<lparr>selectedIndex := 2\<rparr>) =
      Inr (map CategoryItem (categories exProps))"
    by (simp add: visibleItems_def groupedTokens_def currentItems_def exTopLevel_def categories_def
        exProps_def orEmpty_def toLowerCase_def)
  have up: "handleKeyDown exHost exProps exTopLevel (exKey ''ArrowUp'') =
     Inr \<lparr>newState = exTopLevel\<lparr>selectedIndex := 2\<rparr>, defaultPrevented = True, submitted = None\<rparr>"
    using navigation_wraps_around [OF _ exTopLevel_items, of "exKey ''ArrowUp''"]
    by (simp add: exTopLevel_def exKey_def categories_def)
  have down: "handleKeyDown exHost exProps (exTopLevel\<lparr>selectedIndex := 2\<rparr>) (exKey ''ArrowDown'') =
     Inr \<lparr>newState = exTopLevel\<lparr>selectedIndex := 0\<rparr>, defaultPrevented = True, submitted = None\<rparr>"
    using navigation_wraps_around [OF _ items, of "exKey ''ArrowDown''"]
    by (simp add: exTopLevel_def exKey_def categories_def)
  from up down show ?thesis by simp
qed

section \<open>Insertion without a trigger\<close>

text \<open>
  C9. For every token and category, \<^verbatim>\<open>insertToken\<close> called while no trigger is
  recorded (\<^verbatim>\<open>slashPosition\<close> is \<^verbatim>\<open>null\<close>) returns normally and leaves the buffer, the
  caret and the whole state as they were.
\<close>

theorem insertToken_without_trigger_is_noop:
  "slashPosition st = None \<Longrightarrow> insertToken tok cat st = Inr st"
  by (simp add: insertToken_def)

theorem insertToken_without_trigger_is_noop_witness:
  "insertToken (Some (exTok ''c1'' ''Text/Primary'')) (Some (colourCategory []))
     (exTopLevel\<lparr>slashPosition := None\<rparr>) = Inr (exTopLevel\<lparr>slashPosition := None\<rparr>)"
  using insertToken_without_trigger_is_noop
    [of "exTopLevel\<lparr>slashPosition := None\<rparr>" "Some (exTok ''c1'' ''Text/Primary'')" "Some (colourCategory [])"]
  by simp

section \<open>Submitting the buffer\<close>

text \<open>
  C8. When the editor's plain text is empty after trimming, \<^verbatim>\<open>handleSubmit\<close> does not
  call \<^verbatim>\<open>onSubmit\<close> and leaves the state, the buffer included, as it was. When it is
  not empty (and a callback was passed to the mounted editor), \<^verbatim>\<open>onSubmit\<close> is called
  with the trimmed plain text and the trimmed markup.
\<close>

theorem handleSubmit_empty_and_nonempty:
  "(trim (innerText h (childNodes (doc st))) = [] \<longrightarrow> handleSubmit h p st = (st, None))
   \<and> (trim (innerText h (childNodes (doc st))) \<noteq> [] \<and> editorRef st \<and> onSubmit p \<longrightarrow>
        snd (handleSubmit h p st) =
          Some (trim (innerText h (childNodes (doc st))), trim (innerHTML h (childNodes (doc st)))))"
  by (simp add: handleSubmit_def Let_def)

lemma trim_example1: "trim ''  '' = []"
  by (simp add: trim_def isWhiteSpace_def)

lemma trim_example2: "trim '' fix it '' = ''fix it''"
  by (simp add: trim_def isWhiteSpace_def)

theorem handleSubmit_empty_and_nonempty_witness:
  "handleSubmit exHost exProps (exTopLevel\<lparr>doc := \<lparr>childNodes = [(0, TextNode ''  '')], nextId = 1\<rparr>\<rparr>)
     = (exTopLevel\<lparr>doc := \<lparr>childNodes = [(0, TextNode ''  '')], nextId = 1\<rparr>\<rparr>, None)
   \<and> snd (handleSubmit exHost exProps
            (exTopLevel\<lparr>doc := \<lparr>childNodes = [(0, TextNode '' fix it '')], nextId = 1\<rparr>\<rparr>))
     = Some (''fix it'', ''fix it'')"
proof -
  let ?e = "exTopLevel\<lparr>doc := \<lparr>childNodes = [(0, TextNode ''  '')], nextId = 1\<rparr>\<rparr>"
  let ?n = "exTopLevel\<lparr>doc := \<lparr>childNodes = [(0, TextNode '' fix it '')], nextId = 1\<rparr>\<rparr>"
  have "handleSubmit exHost exProps ?e = (?e, None)"
    using handleSubmit_empty_and_nonempty [of exHost ?e exProps]
    by (simp add: exHost_def exInnerText_def textContent_def trim_example1)
  moreover have "snd (handleSubmit exHost exProps ?n) = Some (''fix it'', ''fix it'')"
    using handleSubmit_empty_and_nonempty [of exHost ?n exProps]
    by (simp add: exHost_def exInnerText_def exInnerHTML_def textContent_def trim_example2
        exTopLevel_def exProps_def)
  ultimately show ?thesis by simp
qed

section \<open>The filtered list\<close>

lemma startsWith_iff: "startsWith s sub \<longleftrightarrow> (\<exists>post. s = sub @ post)"
  by (induction s sub rule: startsWith.induct) auto

lemma str_includes_iff: "str_includes s sub \<longleftrightarrow> (\<exists>pre post. s = pre @ sub @ post)"
proof (induction s)
  case Nil
  show ?case by auto
next
  case (Cons d ds)
  show ?case
  proof
    assume "str_includes (d # ds) sub"
    then consider "startsWith (d # ds) sub" | "str_includes ds sub" by auto
    then show "\<exists>pre post. d # ds = pre @ sub @ post"
    proof cases
      case 1
      then obtain post where "d # ds = sub @ post" by (auto simp: startsWith_iff)
      then have "d # ds = [] @ sub @ post" by simp
      then show ?thesis by blast
    next
      case 2
      with Cons obtain pre post where "ds = pre @ sub @ post" by blast
      then have "d # ds = (d # pre) @ sub @ post" by simp
      then show ?thesis by blast
    qed
  next
    assume "\<exists>pre post. d # ds = pre @ sub @ post"
    then obtain pre post where eq: "d # ds = pre @ sub @ post" by blast
    show "str_includes (d # ds) sub"
    proof (cases pre)
      case Nil
      with eq have "startsWith (d # ds) sub" by (auto simp: startsWith_iff)
      then show ?thesis by simp
    next
      case (Cons a pre')
      with eq have "ds = pre' @ sub @ post" by simp
      with Cons.IH have "str_includes ds sub" by blast
      then show ?thesis by simp
    qed
  qed
qed

lemma matches_iff:
  "str_includes (toLowerCase lbl) (toLowerCase f) \<longleftrightarrow> containsIgnoringCase lbl f"
proof
  assume "str_includes (toLowerCase lbl) (toLowerCase f)"
  then obtain pre post where "map lowerChar lbl = pre @ map lowerChar f @ post"
    by (auto simp: str_includes_iff toLowerCase_def)
  then have eq: "map lowerChar lbl = pre @ map lowerChar f @ post" .
  let ?mid = "take (length f) (drop (length pre) lbl)"
  have "map lowerChar ?mid = take (length f) (drop (length pre) (map lowerChar lbl))"
    by (simp add: take_map drop_map)
  also have "\<dots> = map lowerChar f"
    unfolding eq by simp
  finally have mid: "equalIgnoringCase ?mid f"
    by (simp add: equalIgnoringCase_def)
  have "lbl = take (length pre) lbl @ ?mid @ drop (length f) (drop (length pre) lbl)"
    by (simp only: append_take_drop_id)
  with mid show "containsIgnoringCase lbl f"
    unfolding containsIgnoringCase_def by blast
next
  assume "containsIgnoringCase lbl f"
  then obtain a b c where "lbl = a @ b @ c" and "map lowerChar b = map lowerChar f"
    by (auto simp: containsIgnoringCase_def equalIgnoringCase_def)
  then have "map lowerChar lbl = map lowerChar a @ map lowerChar f @ map lowerChar c" by simp
  then show "str_includes (toLowerCase lbl) (toLowerCase f)"
    unfolding str_includes_iff toLowerCase_def by blast
qed

text \<open>
  C6. For every filter text and catalog, \<^verbatim>\<open>currentItems\<close> holds, in catalog order,
  exactly the items whose label contains the filter text as a case-insensitive
  substring: inside a category the tokens of the category, and at the top level the
  categories that have at least one token. The label of a token is
  \<^verbatim>\<open>token.label || token.name || ''\<close>, its full path name; the label of a category
  is the text of its row.
\<close>

theorem currentItems_filtered_by_label:
  "currentItems p st =
     (case activeCategory st of
        Some c \<Rightarrow>
          map TokenItem
            (filter (\<lambda>t. containsIgnoringCase (tokenLabel t) (filterText st)) (cat_tokens c))
      | None \<Rightarrow>
          map CategoryItem
            (filter (\<lambda>c. cat_tokens c \<noteq> [] \<and> containsIgnoringCase (cat_label c) (filterText st))
               (categories p)))"
proof (cases "activeCategory st")
  case None
  have pred: "(\<lambda>c. if length (cat_tokens c) = 0 then False
             else str_includes (toLowerCase (cat_label c)) (toLowerCase (filterText st))) =
        (\<lambda>c. cat_tokens c \<noteq> [] \<and> containsIgnoringCase (cat_label c) (filterText st))"
    by (auto simp: matches_iff)
  have "currentItems p st = map CategoryItem
      (filter (\<lambda>c. if length (cat_tokens c) = 0 then False
             else str_includes (toLowerCase (cat_label c)) (toLowerCase (filterText st)))
        (categories p))"
    unfolding currentItems_def None by simp
  then show ?thesis
    unfolding pred None by simp
next
  case (Some c)
  then show ?thesis
    by (simp add: currentItems_def getFilteredTokens_def matches_iff)
qed


theorem currentItems_filtered_by_label_witness:
  "map CategoryItem
     (filter (\<lambda>c. cat_tokens c \<noteq> [] \<and> containsIgnoringCase (cat_label c) ''col'')
        (categories exScenarioProps)) =
   [CategoryItem \<lparr>cat_id = ''colour'', cat_label = ''Colour tokens'', cat_color = ''#8b5cf6'',
      cat_tokens = [exTok ''c1'' ''Text/Primary'', exTok ''c2'' ''Text/Secondary'',
                    exTok ''c3'' ''Primary Blue'']\<rparr>]"
proof -
  have "currentItems exScenarioProps exFiltering =
      [CategoryItem \<lparr>cat_id = ''colour'', cat_label = ''Colour tokens'', cat_color = ''#8b5cf6'',
        cat_tokens = [exTok ''c1'' ''Text/Primary'', exTok ''c2'' ''Text/Secondary'',
                      exTok ''c3'' ''Primary Blue'']\<rparr>]"
    by (simp add: currentItems_def exFiltering_def exScenarioProps_def categories_def orEmpty_def
        toLowerCase_def lowerChar_def)
  then show ?thesis
    using currentItems_filtered_by_label [of exScenarioProps exFiltering]
    by (simp add: exFiltering_def)
qed

section \<open>Splicing a token into the buffer\<close>

lemma replaceNode_middle:
  "nid \<notin> fst ` set pre \<Longrightarrow> replaceNode nid new (pre @ (nid, n) # post) = pre @ new @ post"
  by (induction pre) auto

lemma substring_from_start: "substring s 0 b = take b s"
  by (simp add: substring_def Let_def min_def)

text \<open>
  C2 (as amended). With a trigger recorded at offset \<open>so\<close> of a text node, the caret in
  that node behind the trigger, \<^verbatim>\<open>insertToken\<close> replaces the node by three: a text node
  with the text before the trigger, one tag for the token, and a text node with the
  text behind the caret (a single space when none follows). The span from the trigger
  to the caret is gone from the buffer. When no text follows, the caret is put behind
  the placeholder space. The menu is closed, and the active category and the recorded
  trigger position are cleared.
\<close>

theorem insertToken_splices_reference:
  assumes trigger: "slashPosition st = Some (nid, so)"
    and range: "selection st = Some r" "startContainer r = Child nid"
    and buffer: "childNodes (doc st) = pre @ (nid, TextNode txt) # post" "nid \<notin> fst ` set pre"
    and span: "so < startOffset r" "startOffset r \<le> length txt"
    and mounted: "editorRef st"
  shows "\<exists>st'. insertToken (Some tok) (Some cat) st = Inr st'
      \<and> childNodes (doc st') =
          pre @ [(nextId (doc st) + 1, TextNode (take so txt)),
                 (nextId (doc st),
                  TokenTag \<lparr>dataType = cat_id cat, dataValue = tokenName tok,
                            tagTitle = valueStr tok cat, tagColor = cat_color cat,
                            tagText = tokenName tok\<rparr>),
                 (nextId (doc st) + 2,
                  TextNode (if drop (startOffset r) txt = [] then '' '' else drop (startOffset r) txt))]
          @ post
      \<and> (drop (startOffset r) txt = [] \<longrightarrow>
           selection st' =
             Some \<lparr>startContainer = Child (nextId (doc st) + 2), startOffset = 1, collapsed = True\<rparr>)
      \<and> bufferLength (childNodes (doc st')) + (startOffset r - so) =
          bufferLength (childNodes (doc st)) + 1 + (if drop (startOffset r) txt = [] then 1 else 0)
      \<and> showMenu st' = False \<and> activeCategory st' = None \<and> slashPosition st' = None"
proof -
  have lookup: "map_of (childNodes (doc st)) nid = Some (TextNode txt)"
    unfolding buffer(1) using buffer(2) by (rule map_of_middle)
  have splice: "replaceNode nid new (childNodes (doc st)) = pre @ new @ post" for new
    unfolding buffer(1) using buffer(2) by (rule replaceNode_middle)
  let ?tag = "\<lparr>dataType = cat_id cat, dataValue = tokenName tok, tagTitle = valueStr tok cat,
      tagColor = cat_color cat, tagText = tokenName tok\<rparr>"
  let ?aft = "if drop (startOffset r) txt = [] then '' '' else drop (startOffset r) txt"
  let ?new = "[(nextId (doc st) + 1, TextNode (take so txt)), (nextId (doc st), TokenTag ?tag),
      (nextId (doc st) + 2, TextNode ?aft)]"
  let ?st' = "st\<lparr>doc := \<lparr>childNodes = pre @ ?new @ post, nextId = nextId (doc st) + 3\<rparr>,
      selection := Some \<lparr>startContainer = Child (nextId (doc st) + 2), startOffset = 1,
        collapsed = True\<rparr>,
      showMenu := False, activeCategory := None, slashPosition := None\<rparr>"
  have result: "insertToken (Some tok) (Some cat) st = Inr ?st'"
    using trigger range(1) mounted
    by (simp add: insertToken_def Let_def lookup splice textContent_def substring_from_start)
  have len: "bufferLength (pre @ ?new @ post) + (startOffset r - so) =
      bufferLength (pre @ (nid, TextNode txt) # post) + 1
      + (if drop (startOffset r) txt = [] then 1 else 0)"
    using span by (simp add: bufferLength_def nodeLength_def min_def)
  have "childNodes (doc ?st') = pre @ ?new @ post"
    and "drop (startOffset r) txt = [] \<longrightarrow> selection ?st' =
      Some \<lparr>startContainer = Child (nextId (doc st) + 2), startOffset = 1, collapsed = True\<rparr>"
    and "bufferLength (childNodes (doc ?st')) + (startOffset r - so) =
      bufferLength (childNodes (doc st)) + 1 + (if drop (startOffset r) txt = [] then 1 else 0)"
    and "showMenu ?st' = False" and "activeCategory ?st' = None" and "slashPosition ?st' = None"
    using len by (simp_all add: buffer(1))
  with result show ?thesis by blast
qed

theorem insertToken_splices_reference_witness:
  "\<exists>st'. insertToken (Some (exTok ''c1'' ''Text/Primary'')) (Some exColours) exInCategory = Inr st'
     \<and> childNodes (doc st') =
         [(2, TextNode []),
          (1, TokenTag \<lparr>dataType = ''colour'', dataValue = Some ''Text/Primary'', tagTitle = [],
                        tagColor = ''#8b5cf6'', tagText = Some ''Text/Primary''\<rparr>),
          (3, TextNode '' '')]
     \<and> selection st' = Some \<lparr>startContainer = Child 3, startOffset = 1, collapsed = True\<rparr>
     \<and> showMenu st' = False \<and> activeCategory st' = None \<and> slashPosition st' = None"
proof -
  let ?r = "\<lparr>startContainer = Child 0, startOffset = 4, collapsed = True\<rparr>"
  let ?t = "exTok ''c1'' ''Text/Primary''"
  have "\<exists>st'. insertToken (Some ?t) (Some exColours) exInCategory = Inr st'
      \<and> childNodes (doc st') =
          [] @ [(nextId (doc exInCategory) + 1, TextNode (take 0 ''/pri'')),
                 (nextId (doc exInCategory),
                  TokenTag \<lparr>dataType = cat_id exColours, dataValue = tokenName ?t,
                            tagTitle = valueStr ?t exColours, tagColor = cat_color exColours,
                            tagText = tokenName ?t\<rparr>),
                 (nextId (doc exInCategory) + 2,
                  TextNode (if drop (startOffset ?r) ''/pri'' = [] then '' ''
                            else drop (startOffset ?r) ''/pri''))]
          @ []
      \<and> (drop (startOffset ?r) ''/pri'' = [] \<longrightarrow>
           selection st' =
             Some \<lparr>startContainer = Child (nextId (doc exInCategory) + 2), startOffset = 1,
                    collapsed = True\<rparr>)
      \<and> bufferLength (childNodes (doc st')) + (startOffset ?r - 0) =
          bufferLength (childNodes (doc exInCategory)) + 1
          + (if drop (startOffset ?r) ''/pri'' = [] then 1 else 0)
      \<and> showMenu st' = False \<and> activeCategory st' = None \<and> slashPosition st' = None"
    by (rule insertToken_splices_reference [of exInCategory 0 0 ?r "[]" "''/pri''" "[]"])
      (simp_all add: exInCategory_def)
  then obtain st' where "insertToken (Some ?t) (Some exColours) exInCategory = Inr st'"
    and "childNodes (doc st') =
         [(2, TextNode []),
          (1, TokenTag \<lparr>dataType = ''colour'', dataValue = Some ''Text/Primary'', tagTitle = [],
                        tagColor = ''#8b5cf6'', tagText = Some ''Text/Primary''\<rparr>),
          (3, TextNode '' '')]"
    and "selection st' = Some \<lparr>startContainer = Child 3, startOffset = 1, collapsed = True\<rparr>"
    and "showMenu st' = False" and "activeCategory st' = None" and "slashPosition st' = None"
    by (auto simp: exInCategory_def exColours_def colourCategory_def exTok_def tokenName_def
        js_or_def truthy_def valueStr_def)
  then show ?thesis by blast
qed

text \<open>
  C2 as stated fails: after \<^verbatim>\<open>/pri\<close> is replaced by the tag, the tag ends at position
  1 of the buffer, but the caret is at position 2, behind the placeholder space, and
  the filter text is still \<^verbatim>\<open>pri\<close>.
\<close>

theorem insertToken_caret_counterexample:
  "insertToken (Some (exTok ''c1'' ''Text/Primary'')) (Some exColours) exInCategory = Inr exAfterInsert
   \<and> childNodes (doc exAfterInsert) = [(2, TextNode []), (1, TokenTag exTag), (3, TextNode '' '')]
   \<and> bufferLength [(2, TextNode []), (1, TokenTag exTag)] = 1
   \<and> selection exAfterInsert = Some \<lparr>startContainer = Child 3, startOffset = 1, collapsed = True\<rparr>
   \<and> caretPosition (childNodes (doc exAfterInsert))
        \<lparr>startContainer = Child 3, startOffset = 1, collapsed = True\<rparr> = Some 2
   \<and> filterText exAfterInsert = ''pri''"
  by (simp add: insertToken_def exInCategory_def exAfterInsert_def exColours_def
      colourCategory_def exTok_def exTag_def Let_def textContent_def substring_def tokenName_def
      js_or_def truthy_def valueStr_def caretPosition_def bufferLength_def nodeLength_def)

section \<open>Backward deletion next to a reference\<close>

lemma tagBeforeCaret_offset_positive:
  assumes "selection st = Some r" and "startContainer r = Child nid" and "0 < startOffset r"
  shows "tagBeforeCaret st = None"
  using assms by (simp add: tagBeforeCaret_def split: option.split)

lemma previousSibling_after_tag:
  assumes "distinct (map fst (pre @ (gid, tg) # (nid, n) # post))"
  shows "previousSibling (pre @ (gid, tg) # (nid, n) # post) nid = Some (gid, tg)"
proof -
  have "nid \<notin> fst ` set (pre @ [(gid, tg)])"
    using assms by auto
  then have "indexOf nid ((pre @ [(gid, tg)]) @ (nid, n) # post) = Some (length (pre @ [(gid, tg)]))"
    by (rule indexOf_middle)
  then show ?thesis
    by (simp add: previousSibling_def childAt_def nth_append)
qed

lemma remove_tag_from_buffer:
  assumes "distinct (map fst (pre @ (gid, tg) # rest))"
  shows "filter (\<lambda>c. fst c \<noteq> gid) (pre @ (gid, tg) # rest) = pre @ rest"
proof -
  have "\<forall>c \<in> set pre \<union> set rest. fst c \<noteq> gid"
    using assms by auto
  then show ?thesis by (simp add: filter_id_conv)
qed

text \<open>
  C1 (as amended). For every category: after an insertion that added the placeholder
  space, the caret is behind that space, so Backspace is not intercepted (the state is
  unchanged and the default action, an ordinary character deletion, is not prevented).
  With the menu closed and a collapsed caret directly behind a tag, at offset 0 of the
  text node that follows it or at the editor offset just past it, Backspace removes the
  whole tag and nothing else, prevents the default action, and leaves the caret at the
  buffer position where the tag began.
\<close>

theorem backspace_removes_reference_at_run_start:
  "(slashPosition st = Some sp \<and> selection st = Some r
      \<and> map_of (childNodes (doc st)) (fst sp) = Some n \<and> drop (startOffset r) (textContent n) = []
      \<and> insertToken (Some tok) (Some cat) st = Inr st' \<and> key ev = ''Backspace''
    \<longrightarrow> handleKeyDown h p st' ev =
          Inr \<lparr>newState = st', defaultPrevented = False, submitted = None\<rparr>)
   \<and> (\<not> showMenu st2 \<and> selection st2 = Some r2 \<and> collapsed r2
      \<and> startContainer r2 = Child nid \<and> startOffset r2 = 0
      \<and> childNodes (doc st2) = pre @ (gid, TokenTag tg) # (nid, TextNode s) # post
      \<and> distinct (map fst (childNodes (doc st2))) \<and> key ev = ''Backspace''
    \<longrightarrow> handleKeyDown h p st2 ev =
          Inr \<lparr>newState = st2\<lparr>doc := (doc st2)\<lparr>childNodes := pre @ (nid, TextNode s) # post\<rparr>\<rparr>,
               defaultPrevented = True, submitted = None\<rparr>
        \<and> caretPosition (pre @ (nid, TextNode s) # post) r2 = Some (bufferLength pre))
   \<and> (\<not> showMenu st3 \<and> editorRef st3 \<and> selection st3 = Some r3 \<and> collapsed r3
      \<and> startContainer r3 = Editor \<and> startOffset r3 = Suc (length pre3)
      \<and> childNodes (doc st3) = pre3 @ (gid3, TokenTag tg3) # post3
      \<and> distinct (map fst (childNodes (doc st3))) \<and> key ev = ''Backspace''
    \<longrightarrow> handleKeyDown h p st3 ev =
          Inr \<lparr>newState = st3\<lparr>doc := (doc st3)\<lparr>childNodes := pre3 @ post3\<rparr>,
                             selection := Some (r3\<lparr>startOffset := length pre3\<rparr>)\<rparr>,
               defaultPrevented = True, submitted = None\<rparr>
        \<and> caretPosition (pre3 @ post3) (r3\<lparr>startOffset := length pre3\<rparr>) = Some (bufferLength pre3))"
proof -
  have first: "handleKeyDown h p st' ev =
      Inr \<lparr>newState = st', defaultPrevented = False, submitted = None\<rparr>"
    if "slashPosition st = Some sp" "selection st = Some r"
      "map_of (childNodes (doc st)) (fst sp) = Some n" "drop (startOffset r) (textContent n) = []"
      "insertToken (Some tok) (Some cat) st = Inr st'" "key ev = ''Backspace''"
  proof -
    from that have st': "showMenu st' = False"
        "selection st' = Some \<lparr>startContainer = Child (nextId (doc st) + 2), startOffset = 1,
           collapsed = True\<rparr>"
      by (auto simp: insertToken_def Let_def split: if_splits)
    have "tagBeforeCaret st' = None"
      using st'(2) by (rule tagBeforeCaret_offset_positive) simp_all
    with st'(1) that(6) show ?thesis
      by (simp add: handleKeyDown_def)
  qed
  have second: "handleKeyDown h p st2 ev =
        Inr \<lparr>newState = st2\<lparr>doc := (doc st2)\<lparr>childNodes := pre @ (nid, TextNode s) # post\<rparr>\<rparr>,
             defaultPrevented = True, submitted = None\<rparr>
      \<and> caretPosition (pre @ (nid, TextNode s) # post) r2 = Some (bufferLength pre)"
    if closed: "\<not> showMenu st2" and sel: "selection st2 = Some r2" "collapsed r2"
      "startContainer r2 = Child nid" "startOffset r2 = 0"
      and buf: "childNodes (doc st2) = pre @ (gid, TokenTag tg) # (nid, TextNode s) # post"
      and ids: "distinct (map fst (childNodes (doc st2)))" and bs: "key ev = ''Backspace''"
  proof -
    from ids buf have d: "distinct (map fst (pre @ (gid, TokenTag tg) # (nid, TextNode s) # post))"
      by simp
    then have nid: "nid \<notin> fst ` set (pre @ [(gid, TokenTag tg)])" and gid: "gid \<notin> fst ` set pre"
      and ne: "nid \<noteq> gid"
      by auto
    have look: "map_of (childNodes (doc st2)) nid = Some (TextNode s)"
      using map_of_middle [OF nid, of "TextNode s" post] by (simp add: buf)
    have prev: "previousSibling (childNodes (doc st2)) nid = Some (gid, TokenTag tg)"
      unfolding buf using d by (rule previousSibling_after_tag)
    have found: "tagBeforeCaret st2 = Some gid"
      using sel by (simp add: tagBeforeCaret_def look prev isTextNode_def isTokenTag_def)
    have idx: "indexOf gid (childNodes (doc st2)) = Some (length pre)"
      unfolding buf using gid by (rule indexOf_middle)
    have rest: "filter (\<lambda>c. fst c \<noteq> gid) (childNodes (doc st2)) = pre @ (nid, TextNode s) # post"
      unfolding buf using d by (rule remove_tag_from_buffer)
    have removed: "removeNode gid st2 =
        st2\<lparr>doc := (doc st2)\<lparr>childNodes := pre @ (nid, TextNode s) # post\<rparr>\<rparr>"
      using sel ne by (simp add: removeNode_def idx rest)
    have "nid \<notin> fst ` set pre" using nid by auto
    then have "indexOf nid (pre @ (nid, TextNode s) # post) = Some (length pre)"
      by (rule indexOf_middle)
    then have caret: "caretPosition (pre @ (nid, TextNode s) # post) r2 = Some (bufferLength pre)"
      using sel by (simp add: caretPosition_def)
    from closed bs found removed caret show ?thesis
      by (simp add: handleKeyDown_def)
  qed
  have third: "handleKeyDown h p st3 ev =
        Inr \<lparr>newState = st3\<lparr>doc := (doc st3)\<lparr>childNodes := pre3 @ post3\<rparr>,
                           selection := Some (r3\<lparr>startOffset := length pre3\<rparr>)\<rparr>,
             defaultPrevented = True, submitted = None\<rparr>
      \<and> caretPosition (pre3 @ post3) (r3\<lparr>startOffset := length pre3\<rparr>) = Some (bufferLength pre3)"
    if closed: "\<not> showMenu st3" and ref: "editorRef st3" and sel: "selection st3 = Some r3"
      "collapsed r3" "startContainer r3 = Editor" "startOffset r3 = Suc (length pre3)"
      and buf: "childNodes (doc st3) = pre3 @ (gid3, TokenTag tg3) # post3"
      and ids: "distinct (map fst (childNodes (doc st3)))" and bs: "key ev = ''Backspace''"
  proof -
    from ids buf have d: "distinct (map fst (pre3 @ (gid3, TokenTag tg3) # post3))"
      by simp
    then have gid: "gid3 \<notin> fst ` set pre3"
      by auto
    have found: "tagBeforeCaret st3 = Some gid3"
      using sel ref by (simp add: tagBeforeCaret_def buf childAt_def isTokenTag_def)
    have idx: "indexOf gid3 (childNodes (doc st3)) = Some (length pre3)"
      unfolding buf using gid by (rule indexOf_middle)
    have rest: "filter (\<lambda>c. fst c \<noteq> gid3) (childNodes (doc st3)) = pre3 @ post3"
      unfolding buf using d by (rule remove_tag_from_buffer)
    have removed: "removeNode gid3 st3 =
        st3\<lparr>doc := (doc st3)\<lparr>childNodes := pre3 @ post3\<rparr>,
            selection := Some (r3\<lparr>startOffset := length pre3\<rparr>)\<rparr>"
      using sel by (simp add: removeNode_def idx rest)
    have caret: "caretPosition (pre3 @ post3) (r3\<lparr>startOffset := length pre3\<rparr>) =
        Some (bufferLength pre3)"
      using sel by (simp add: caretPosition_def)
    from closed bs found removed caret show ?thesis
      by (simp add: handleKeyDown_def)
  qed
  from first second third show ?thesis by blast
qed

theorem backspace_removes_reference_at_run_start_witness:
  "handleKeyDown exHost exProps exAfterInsert (exKey ''Backspace'') =
     Inr \<lparr>newState = exAfterInsert, defaultPrevented = False, submitted = None\<rparr>
   \<and> handleKeyDown exHost exProps exPlaceholderDeleted (exKey ''Backspace'') =
     Inr \<lparr>newState = exPlaceholderDeleted
            \<lparr>doc := (doc exPlaceholderDeleted)\<lparr>childNodes := [(2, TextNode []), (3, TextNode [])]\<rparr>\<rparr>,
          defaultPrevented = True, submitted = None\<rparr>
   \<and> caretPosition [(2, TextNode []), (3, TextNode [])]
        \<lparr>startContainer = Child 3, startOffset = 0, collapsed = True\<rparr> = Some 0"
proof -
  have ins: "insertToken (Some (exTok ''c1'' ''Text/Primary'')) (Some exColours) exInCategory =
      Inr exAfterInsert"
    by (simp add: insertToken_def exInCategory_def exAfterInsert_def exColours_def
        colourCategory_def exTok_def exTag_def Let_def textContent_def substring_def tokenName_def
        js_or_def truthy_def valueStr_def)
  note inst = backspace_removes_reference_at_run_start
    [of exInCategory "(0, 0)" "\<lparr>startContainer = Child 0, startOffset = 4, collapsed = True\<rparr>"
      "TextNode ''/pri''" "exTok ''c1'' ''Text/Primary''" exColours exAfterInsert
      "exKey ''Backspace''" exHost exProps
      exPlaceholderDeleted "\<lparr>startContainer = Child 3, startOffset = 0, collapsed = True\<rparr>"
      3 "[(2, TextNode [])]" 1 exTag "[]" "[]"]
  have a: "handleKeyDown exHost exProps exAfterInsert (exKey ''Backspace'') =
     Inr \<lparr>newState = exAfterInsert, defaultPrevented = False, submitted = None\<rparr>"
    using inst ins by (simp add: exInCategory_def exKey_def textContent_def)
  have b: "handleKeyDown exHost exProps exPlaceholderDeleted (exKey ''Backspace'') =
     Inr \<lparr>newState = exPlaceholderDeleted
            \<lparr>doc := (doc exPlaceholderDeleted)\<lparr>childNodes := [(2, TextNode []), (3, TextNode [])]\<rparr>\<rparr>,
          defaultPrevented = True, submitted = None\<rparr>
   \<and> caretPosition [(2, TextNode []), (3, TextNode [])]
        \<lparr>startContainer = Child 3, startOffset = 0, collapsed = True\<rparr> = Some (bufferLength [(2, TextNode [])])"
    using inst by (simp add: exPlaceholderDeleted_def exAfterInsert_def exKey_def)
  from a b show ?thesis by (simp add: bufferLength_def nodeLength_def)
qed

text \<open>
  C1 as stated fails: Backspace directly after an insertion is not intercepted, and
  the tag stays in the buffer.
\<close>

theorem backspace_after_insert_counterexample:
  "insertToken (Some (exTok ''c1'' ''Text/Primary'')) (Some exColours) exInCategory = Inr exAfterInsert
   \<and> handleKeyDown exHost exProps exAfterInsert (exKey ''Backspace'') =
       Inr \<lparr>newState = exAfterInsert, defaultPrevented = False, submitted = None\<rparr>
   \<and> childNodes (doc exAfterInsert) = [(2, TextNode []), (1, TokenTag exTag), (3, TextNode '' '')]"
  by (simp add: insertToken_def exInCategory_def exAfterInsert_def exColours_def
      colourCategory_def exTok_def exTag_def Let_def textContent_def substring_def tokenName_def
      js_or_def truthy_def valueStr_def handleKeyDown_def exKey_def tagBeforeCaret_def
      isTextNode_def)


section \<open>Cancelling the trigger\<close>









section \<open>The selection index\<close>

























section \<open>The normalizer on safe names\<close>

lemma groupStep_bucketKey:
  "groupStep t st =
     (case bucketKey t of
        None \<Rightarrow> Inr (fst st, snd st @ [t])
      | Some k \<Rightarrow>
          (case addToGroup (fst k) (snd k) t (fst st) of
             Inl e \<Rightarrow> Inl e | Inr gm \<Rightarrow> Inr (gm, snd st)))"
  by (simp add: groupStep_def bucketKey_def split: list.split)

lemma addToSubgroup_safe:
  "\<not> inherited s \<Longrightarrow>
     addToSubgroup s t subs =
       Inr (AList.update s ((case map_of subs s of None \<Rightarrow> [] | Some l \<Rightarrow> l) @ [t]) subs)"
  by (simp add: addToSubgroup_def split: option.split)

lemma addToGroup_safe:
  assumes "\<not> inherited g" and "\<not> inherited s"
  shows "addToGroup g s t gm =
     Inr (AList.update g
            (AList.update s ((case lookup2 gm g s of None \<Rightarrow> [] | Some l \<Rightarrow> l) @ [t])
               (case map_of gm g of None \<Rightarrow> [] | Some subs \<Rightarrow> subs)) gm)"
  using assms by (simp add: addToGroup_def addToSubgroup_safe lookup2_def split: option.split)

lemma bucket_snoc:
  "bucket (ts @ [t]) g s = bucket ts g s @ (if bucketKey t = Some (g, s) then [t] else [])"
  by (simp add: bucket_def)

lemma filed_step:
  assumes inv: "filed ts st" and safe: "safeName t"
  shows "\<exists>st'. groupStep t st = Inr st' \<and> filed (ts @ [t]) st'"
proof (cases "bucketKey t")
  case None
  then have "groupStep t st = Inr (fst st, snd st @ [t])"
    by (simp add: groupStep_bucketKey)
  moreover have "filed (ts @ [t]) (fst st, snd st @ [t])"
    using inv None by (simp add: filed_def bucket_snoc)
  ultimately show ?thesis by blast
next
  case (Some k)
  obtain g s where k: "k = (g, s)" by (cases k)
  from safe Some k have ok: "\<not> inherited g" "\<not> inherited s"
    by (simp_all add: safeName_def)
  define subs where "subs = (case map_of (fst st) g of None \<Rightarrow> [] | Some x \<Rightarrow> x)"
  define old where "old = (case lookup2 (fst st) g s of None \<Rightarrow> [] | Some l \<Rightarrow> l)"
  define subs' where "subs' = AList.update s (old @ [t]) subs"
  define gm' where "gm' = AList.update g subs' (fst st)"
  have step: "groupStep t st = Inr (gm', snd st)"
    using Some k
    by (simp add: groupStep_bucketKey addToGroup_safe [OF ok] gm'_def subs'_def old_def subs_def)
  from inv have old: "old = bucket ts g s"
    by (simp add: filed_def old_def)
  have subs_distinct: "distinct (map fst subs)"
    using inv by (auto simp: filed_def subs_def split: option.split)
  have subs_look: "map_of subs s' = lookup2 (fst st) g s'" for s'
    by (simp add: subs_def lookup2_def split: option.split)
  have gm'_look: "map_of gm' g' = (if g' = g then Some subs' else map_of (fst st) g')" for g'
    by (simp add: gm'_def update_conv')
  have subs'_look: "map_of subs' s' = (if s' = s then Some (old @ [t]) else map_of subs s')" for s'
    by (simp add: subs'_def update_conv')
  have look: "lookup2 gm' g' s' =
      (if g' = g \<and> s' = s then Some (bucket ts g s @ [t]) else lookup2 (fst st) g' s')" for g' s'
  proof (cases "g' = g")
    case True
    then have "lookup2 gm' g' s' = map_of subs' s'"
      by (simp add: lookup2_def gm'_look)
    with True show ?thesis
      by (simp add: subs'_look subs_look old)
  next
    case False
    then show ?thesis
      by (simp add: lookup2_def gm'_look)
  qed
  have "snd st = filter (\<lambda>t. bucketKey t = None) (ts @ [t])"
    using inv Some by (simp add: filed_def)
  moreover have "distinct (map fst gm')"
    using inv by (simp add: filed_def distinct_update gm'_def)
  moreover have "distinct (map fst x) \<and> x \<noteq> []" if "map_of gm' g' = Some x" for g' x
  proof (cases "g' = g")
    case True
    with that have "x = subs'" by (simp add: gm'_look)
    moreover have "subs' \<noteq> []" unfolding subs'_def by (cases subs) simp_all
    ultimately show ?thesis using subs_distinct by (simp add: distinct_update subs'_def)
  next
    case False
    with that have "map_of (fst st) g' = Some x" by (simp add: gm'_look)
    with inv show ?thesis by (simp add: filed_def)
  qed
  moreover have "lookup2 gm' g' s' =
      (if bucket (ts @ [t]) g' s' = [] then None else Some (bucket (ts @ [t]) g' s'))" for g' s'
    using inv Some k by (auto simp: look bucket_snoc filed_def)
  ultimately have "filed (ts @ [t]) (gm', snd st)"
    unfolding filed_def by (simp only: fst_conv snd_conv) blast
  with step show ?thesis by blast
qed

lemma filed_loop:
  "filed ts0 st \<Longrightarrow> \<forall>t \<in> set ts. safeName t \<Longrightarrow>
     \<exists>st'. groupLoop ts st = Inr st' \<and> filed (ts0 @ ts) st'"
proof (induction ts arbitrary: ts0 st)
  case Nil
  then show ?case by simp
next
  case (Cons t ts)
  from filed_step [OF Cons.prems(1), of t] Cons.prems(2)
  obtain st1 where one: "groupStep t st = Inr st1" and inv: "filed (ts0 @ [t]) st1"
    by auto
  from Cons.IH [OF inv] Cons.prems(2) obtain st' where "groupLoop ts st1 = Inr st'"
    and "filed ((ts0 @ [t]) @ ts) st'"
    by auto
  with one show ?case by simp
qed

lemma filed_initial: "filed [] ([], [])"
  by (simp add: filed_def lookup2_def bucket_def)

lemma groupLoop_safe:
  assumes "\<forall>t \<in> set ts. safeName t"
  shows "\<exists>st. groupLoop ts ([], []) = Inr st \<and> filed ts st"
  using filed_loop [OF filed_initial assms] by simp


lemma Object_keys_set: "set (Object_keys obj) = fst ` set obj"
  by (auto simp: Object_keys_def)

lemma Object_keys_distinct: "distinct (map fst obj) \<Longrightarrow> distinct (Object_keys obj)"
  by (auto simp: Object_keys_def distinct_map_filter)

lemma map_filter_total:
  "\<forall>k \<in> set ks. m k \<noteq> None \<Longrightarrow>
     List.map_filter (\<lambda>k. map_option (f k) (m k)) ks = map (\<lambda>k. f k (the (m k))) ks"
  by (induction ks) (auto simp: List.map_filter_simps)

lemma insertBy_set: "set (insertBy cmp x ys) = insert x (set ys)"
  by (induction ys) auto

lemma sortBy_Cons: "sortBy cmp (x # xs) = insertBy cmp x (sortBy cmp xs)"
  by (simp add: sortBy_def)

lemma sortBy_Nil: "sortBy cmp [] = []"
  by (simp add: sortBy_def)

lemma sortBy_set: "set (sortBy cmp xs) = set xs"
  by (induction xs) (simp_all add: sortBy_Nil sortBy_Cons insertBy_set)

lemma insertBy_distinct: "distinct (insertBy cmp x ys) = (x \<notin> set ys \<and> distinct ys)"
  by (induction ys) (auto simp: insertBy_set)

lemma sortBy_distinct: "distinct (sortBy cmp xs) = distinct xs"
  by (induction xs) (simp_all add: sortBy_Nil sortBy_Cons insertBy_distinct sortBy_set)

lemma insertBy_named:
  "x \<noteq> ''__none__'' \<Longrightarrow> ''__none__'' \<notin> set ys \<Longrightarrow>
     insertBy (subgroupCompare lc) x ys = insertBy lc x ys"
  by (induction ys) (auto simp: subgroupCompare_def)

lemma subgroupCompare_with_none:
  "x \<noteq> ''__none__'' \<Longrightarrow> subgroupCompare lc x ''__none__'' = 1"
  by (simp add: subgroupCompare_def)

lemma insertBy_none:
  "insertBy (subgroupCompare lc) ''__none__'' ys = ''__none__'' # ys"
  by (cases ys) (simp_all add: subgroupCompare_def)

lemma sortBy_none_first:
  "distinct xs \<Longrightarrow>
     sortBy (subgroupCompare lc) xs =
       (if ''__none__'' \<in> set xs then [''__none__''] else [])
       @ sortBy lc (filter (\<lambda>k. k \<noteq> ''__none__'') xs)"
proof (induction xs)
  case Nil
  show ?case by (simp add: sortBy_Nil)
next
  case (Cons x xs)
  let ?named = "sortBy lc (filter (\<lambda>k. k \<noteq> ''__none__'') xs)"
  have named: "''__none__'' \<notin> set ?named"
    by (simp add: sortBy_set)
  from Cons have IH: "sortBy (subgroupCompare lc) xs =
      (if ''__none__'' \<in> set xs then [''__none__''] else []) @ ?named"
    by simp
  show ?case
  proof (cases "x = ''__none__''")
    case True
    with Cons.prems have "''__none__'' \<notin> set xs" by simp
    with True IH show ?thesis
      by (simp add: sortBy_Cons insertBy_none)
  next
    case False
    show ?thesis
    proof (cases "''__none__'' \<in> set xs")
      case True
      with False IH named show ?thesis
        by (simp add: sortBy_Cons subgroupCompare_with_none insertBy_named)
    next
      case no: False
      with False IH named show ?thesis
        by (simp add: sortBy_Cons insertBy_named)
    qed
  qed
qed

lemma insertBy_sorted:
  assumes total: "\<And>a b. 0 < lc a b \<Longrightarrow> lc b a \<le> 0"
    and trans: "\<And>a b c. lc a b \<le> 0 \<Longrightarrow> lc b c \<le> 0 \<Longrightarrow> lc a c \<le> 0"
  shows "sorted_wrt (\<lambda>a b. lc a b \<le> 0) ys \<Longrightarrow> sorted_wrt (\<lambda>a b. lc a b \<le> 0) (insertBy lc x ys)"
proof (induction ys)
  case Nil
  show ?case by simp
next
  case (Cons y ys)
  show ?case
  proof (cases "lc x y \<le> 0")
    case True
    with Cons.prems trans show ?thesis by auto
  next
    case False
    then have "lc y x \<le> 0" using total by simp
    with False Cons show ?thesis by (auto simp: insertBy_set)
  qed
qed

lemma sortBy_sorted:
  assumes "\<And>a b. 0 < lc a b \<Longrightarrow> lc b a \<le> 0"
    and "\<And>a b c. lc a b \<le> 0 \<Longrightarrow> lc b c \<le> 0 \<Longrightarrow> lc a c \<le> 0"
  shows "sorted_wrt (\<lambda>a b. lc a b \<le> 0) (sortBy lc xs)"
  by (induction xs) (simp_all add: sortBy_Nil sortBy_Cons insertBy_sorted [OF assms])


lemma map_of_distinct_iff:
  "distinct (map fst al) \<Longrightarrow> (map_of al k = Some v) = ((k, v) \<in> set al)"
  by simp

lemma filed_lookup:
  "filed ts (gm, ug) \<Longrightarrow>
     lookup2 gm g s = (if bucket ts g s = [] then None else Some (bucket ts g s))"
  by (simp add: filed_def)

lemma filed_subgroups:
  "filed ts (gm, ug) \<Longrightarrow> map_of gm g = Some subs \<Longrightarrow> distinct (map fst subs) \<and> subs \<noteq> []"
  unfolding filed_def by (simp only: fst_conv) blast

lemma key_in_object: "(k \<in> fst ` set al) = (map_of al k \<noteq> None)"
  by (simp add: map_of_eq_None_iff)

lemma filed_subgroup_lookup:
  assumes "filed ts (gm, ug)" and "map_of gm g = Some subs"
  shows "map_of subs s = (if bucket ts g s = [] then None else Some (bucket ts g s))"
  using filed_lookup [OF assms(1), of g s] assms(2) by (simp add: lookup2_def)

lemma filed_group_names:
  assumes "filed ts (gm, ug)"
  shows "fst ` set gm = {g. \<exists>s. bucket ts g s \<noteq> []}"
proof (intro set_eqI iffI)
  fix g assume "g \<in> fst ` set gm"
  then obtain subs where look: "map_of gm g = Some subs"
    unfolding key_in_object by blast
  from filed_subgroups [OF assms look] obtain a b rest where "subs = (a, b) # rest"
    by (cases subs) auto
  then have "map_of subs a = Some b" by simp
  with filed_subgroup_lookup [OF assms look, of a] have "bucket ts g a \<noteq> []"
    by (simp split: if_splits)
  then show "g \<in> {g. \<exists>s. bucket ts g s \<noteq> []}" by blast
next
  fix g assume "g \<in> {g. \<exists>s. bucket ts g s \<noteq> []}"
  then obtain s where "bucket ts g s \<noteq> []" by blast
  with filed_lookup [OF assms, of g s] have "lookup2 gm g s \<noteq> None"
    by simp
  then have "map_of gm g \<noteq> None"
    by (cases "map_of gm g") (simp_all add: lookup2_def)
  then show "g \<in> fst ` set gm"
    unfolding key_in_object .
qed

lemma filed_subgroup_keys:
  assumes "filed ts (gm, ug)" and "map_of gm g = Some subs"
  shows "fst ` set subs = {s. bucket ts g s \<noteq> []}"
proof (rule set_eqI)
  fix s
  have "(s \<in> fst ` set subs) = (map_of subs s \<noteq> None)"
    by (rule key_in_object)
  also have "\<dots> = (bucket ts g s \<noteq> [])"
    unfolding filed_subgroup_lookup [OF assms] by simp
  finally show "(s \<in> fst ` set subs) = (s \<in> {s. bucket ts g s \<noteq> []})"
    by simp
qed

lemma filed_subgroup_tokens:
  assumes "filed ts (gm, ug)" and "map_of gm g = Some subs" and "s \<in> fst ` set subs"
  shows "map_of subs s = Some (bucket ts g s)"
  using assms(3) unfolding filed_subgroup_keys [OF assms(1,2)]
  by (simp add: filed_subgroup_lookup [OF assms(1,2)])

lemma subgroupsOf_filed:
  assumes inv: "filed ts (gm, ug)" and g: "map_of gm g = Some subs"
  shows "subgroupsOf lc subs =
     map (\<lambda>s. Subgroup (if s = ''__none__'' then None else Some s) (bucket ts g s))
       ((if bucket ts g ''__none__'' = [] then [] else [''__none__''])
        @ sortBy lc (filter (\<lambda>k. k \<noteq> ''__none__'') (Object_keys subs)))"
proof -
  from inv g have d: "distinct (map fst subs)"
    by (auto simp: filed_def)
  have keys: "set (Object_keys subs) = {s. bucket ts g s \<noteq> []}"
    using filed_subgroup_keys [OF inv g] by (simp add: Object_keys_set)
  have order: "sortBy (subgroupCompare lc) (Object_keys subs) =
      (if bucket ts g ''__none__'' = [] then [] else [''__none__''])
      @ sortBy lc (filter (\<lambda>k. k \<noteq> ''__none__'') (Object_keys subs))"
    using sortBy_none_first [OF Object_keys_distinct [OF d], of lc] keys by auto
  have found: "\<forall>s \<in> set (sortBy (subgroupCompare lc) (Object_keys subs)). map_of subs s \<noteq> None"
    using filed_subgroup_tokens [OF inv g] by (simp add: sortBy_set Object_keys_set)
  have "subgroupsOf lc subs =
      map (\<lambda>s. Subgroup (if s = ''__none__'' then None else Some s) (the (map_of subs s)))
        (sortBy (subgroupCompare lc) (Object_keys subs))"
    unfolding subgroupsOf_def by (rule map_filter_total [OF found])
  also have "\<dots> = map (\<lambda>s. Subgroup (if s = ''__none__'' then None else Some s) (bucket ts g s))
        (sortBy (subgroupCompare lc) (Object_keys subs))"
    using filed_subgroup_tokens [OF inv g] by (simp add: sortBy_set Object_keys_set)
  finally show ?thesis by (simp only: order)
qed

lemma groupsOf_filed:
  assumes inv: "filed ts (gm, ug)"
  shows "groupsOf lc gm =
     map (\<lambda>g. Grouped g (subgroupsOf lc (the (map_of gm g)))) (sort (Object_keys gm))"
proof -
  have "\<forall>g \<in> set (sort (Object_keys gm)). map_of gm g \<noteq> None"
    by (simp add: Object_keys_set map_of_eq_None_iff)
  then show ?thesis
    unfolding groupsOf_def by (rule map_filter_total)
qed


text \<open>
  The tree for a list of safe names. The groups come first, in strictly ascending order
  of their names (by code units), one for each first segment. A group holds the bucket
  of the names with one group segment first, without label, then one subgroup for each
  second segment, labelled with it; the named subgroups are sorted by
  \<^verbatim>\<open>localeCompare\<close> when that is a consistent comparison. Every subgroup holds the
  tokens of its bucket in list order. The tokens whose names have no separator come
  last, in one entry without group name, when there are any.
\<close>

theorem groupTokens_on_safe_names:
  assumes safe: "\<forall>t \<in> set ts. safeName t"
  shows "\<exists>gs. groupTokens lc ts =
        Inr (gs @ (if filter (\<lambda>t. bucketKey t = None) ts = [] then []
                   else [Ungrouped (filter (\<lambda>t. bucketKey t = None) ts)]))
      \<and> sorted (map g_name gs) \<and> distinct (map g_name gs)
      \<and> set (map g_name gs) = {g. \<exists>s. bucket ts g s \<noteq> []}
      \<and> (\<forall>x \<in> set gs. \<exists>named.
            x = Grouped (g_name x)
                  (map (\<lambda>l. Subgroup l (bucket ts (g_name x) (subgroupKey l)))
                     ((if bucket ts (g_name x) ''__none__'' = [] then [] else [None])
                      @ map Some named))
            \<and> distinct named
            \<and> set named = {s. s \<noteq> ''__none__'' \<and> bucket ts (g_name x) s \<noteq> []}
            \<and> (consistentCompare lc \<longrightarrow> sorted_wrt (\<lambda>a b. lc a b \<le> 0) named))"
proof -
  let ?U = "filter (\<lambda>t. bucketKey t = None) ts"
  from groupLoop_safe [OF safe] obtain st where loop: "groupLoop ts ([], []) = Inr st"
    and "filed ts st"
    by blast
  then obtain gm where st: "st = (gm, ?U)" and inv: "filed ts (gm, ?U)"
    by (cases st) (simp add: filed_def)
  let ?gs = "groupsOf lc gm"
  have result: "groupTokens lc ts = Inr (?gs @ (if ?U = [] then [] else [Ungrouped ?U]))"
    using loop st by (simp add: groupTokens_def)
  from inv have d: "distinct (map fst gm)"
    by (simp add: filed_def)
  have names: "map g_name ?gs = sort (Object_keys gm)"
    by (simp add: groupsOf_filed [OF inv] o_def)
  have sorted: "sorted (map g_name ?gs)" and distinct: "distinct (map g_name ?gs)"
    using Object_keys_distinct [OF d] by (simp_all add: names)
  have set: "set (map g_name ?gs) = {g. \<exists>s. bucket ts g s \<noteq> []}"
    using filed_group_names [OF inv] by (simp add: names Object_keys_set)
  have each: "\<exists>named.
        x = Grouped (g_name x)
              (map (\<lambda>l. Subgroup l (bucket ts (g_name x) (subgroupKey l)))
                 ((if bucket ts (g_name x) ''__none__'' = [] then [] else [None])
                  @ map Some named))
        \<and> distinct named
        \<and> set named = {s. s \<noteq> ''__none__'' \<and> bucket ts (g_name x) s \<noteq> []}
        \<and> (consistentCompare lc \<longrightarrow> sorted_wrt (\<lambda>a b. lc a b \<le> 0) named)"
    if "x \<in> set ?gs" for x
  proof -
    from that have "x \<in> (\<lambda>g. Grouped g (subgroupsOf lc (the (map_of gm g)))) ` set (sort (Object_keys gm))"
      by (simp only: groupsOf_filed [OF inv] set_map)
    then obtain g where "g \<in> set (sort (Object_keys gm))"
      and x: "x = Grouped g (subgroupsOf lc (the (map_of gm g)))"
      by blast
    then have g: "g \<in> fst ` set gm"
      by (simp add: Object_keys_set)
    from g obtain subs where look: "map_of gm g = Some subs"
      unfolding key_in_object by blast
    from filed_subgroups [OF inv look] have ds: "distinct (map fst subs)"
      by simp
    let ?named = "sortBy lc (filter (\<lambda>k. k \<noteq> ''__none__'') (Object_keys subs))"
    have shape: "subgroupsOf lc subs =
        map (\<lambda>l. Subgroup l (bucket ts g (subgroupKey l)))
          ((if bucket ts g ''__none__'' = [] then [] else [None]) @ map Some ?named)"
    proof -
      have "''__none__'' \<notin> set ?named"
        by (simp add: sortBy_set)
      then have "map (\<lambda>s. Subgroup (if s = ''__none__'' then None else Some s) (bucket ts g s)) ?named =
          map (\<lambda>l. Subgroup l (bucket ts g (subgroupKey l))) (map Some ?named)"
        by (auto simp: subgroupKey_def)
      then show ?thesis
        by (simp add: subgroupsOf_filed [OF inv look] subgroupKey_def)
    qed
    have "distinct ?named"
      using Object_keys_distinct [OF ds] by (simp add: sortBy_distinct)
    moreover have "set ?named = {s. s \<noteq> ''__none__'' \<and> bucket ts g s \<noteq> []}"
      using filed_subgroup_keys [OF inv look] by (auto simp: sortBy_set Object_keys_set)
    moreover have "sorted_wrt (\<lambda>a b. lc a b \<le> 0) ?named" if "consistentCompare lc"
    proof -
      from that have total: "0 < lc a b \<Longrightarrow> lc b a \<le> 0" for a b
        unfolding consistentCompare_def by blast
      from that have trans: "lc a b \<le> 0 \<Longrightarrow> lc b c \<le> 0 \<Longrightarrow> lc a c \<le> 0" for a b c
        unfolding consistentCompare_def by blast
      from total trans show ?thesis by (rule sortBy_sorted)
    qed
    moreover have "x = Grouped (g_name x)
        (map (\<lambda>l. Subgroup l (bucket ts (g_name x) (subgroupKey l)))
           ((if bucket ts (g_name x) ''__none__'' = [] then [] else [None]) @ map Some ?named))"
      using x look shape by simp
    moreover have "g_name x = g"
      using x by simp
    ultimately show ?thesis
      by blast
  qed
  from result sorted distinct set each show ?thesis by blast
qed


theorem groupTokens_on_safe_names_witness:
  "\<exists>gs. groupTokens exLocaleCompare
          [exTok ''c1'' ''Text/Primary'', exTok ''c2'' ''Text/Secondary'', exTok ''c3'' ''Primary Blue''] =
        Inr (gs @ [Ungrouped [exTok ''c3'' ''Primary Blue'']])
      \<and> set (map g_name gs) = {''Text''}"
proof -
  let ?ts = "[exTok ''c1'' ''Text/Primary'', exTok ''c2'' ''Text/Secondary'', exTok ''c3'' ''Primary Blue'']"
  let ?U = "filter (\<lambda>t. bucketKey t = None) ?ts"
  have keys: "bucketKey (exTok ''c1'' ''Text/Primary'') = Some (''Text'', ''__none__'')"
    "bucketKey (exTok ''c2'' ''Text/Secondary'') = Some (''Text'', ''__none__'')"
    "bucketKey (exTok ''c3'' ''Primary Blue'') = None"
    by (simp_all add: bucketKey_def parseTokenName_def tokenLabel_exTok)
  have safe: "\<forall>t \<in> set ?ts. safeName t"
    by (simp add: safeName_def keys inherited_def objectPrototypeKeys_def)
  have names: "{g. \<exists>s. bucket ?ts g s \<noteq> []} = {''Text''}"
    by (auto simp: bucket_def keys)
  have ungrouped: "(if ?U = [] then [] else [Ungrouped ?U]) = [Ungrouped [exTok ''c3'' ''Primary Blue'']]"
    by (simp add: keys)
  from groupTokens_on_safe_names [OF safe, of exLocaleCompare] obtain gs where
    "groupTokens exLocaleCompare ?ts = Inr (gs @ (if ?U = [] then [] else [Ungrouped ?U]))"
    and "set (map g_name gs) = {g. \<exists>s. bucket ?ts g s \<noteq> []}"
    by blast
  then have "groupTokens exLocaleCompare ?ts = Inr (gs @ [Ungrouped [exTok ''c3'' ''Primary Blue'']])"
    and "set (map g_name gs) = {''Text''}"
    unfolding names ungrouped by this+
  then show ?thesis by blast
qed


section \<open>The normalizer on every name\<close>


lemmas normalizer_eval =
  groupTokens_def groupStep_def parseTokenName_def tokenLabel_exTok
  addToGroup_def addToSubgroup_def inherited_def objectPrototypeKeys_def groupsOf_def
  subgroupsOf_def Object_keys_def isArrayIndex_def isDigit_def sortBy_def subgroupCompare_def
  List.map_filter_simps

text \<open>
  C5. The normalizer does not build the tree for every token list. A name whose first
  or second group segment is the name of a member that every object inherits
  (\<^verbatim>\<open>constructor\<close>, \<^verbatim>\<open>toString\<close>, ...) makes \<^verbatim>\<open>groupTokens\<close> throw, and a name
  whose second segment is \<^verbatim>\<open>__none__\<close> lands in the bucket of the names with one group
  segment, without a subgroup label.
\<close>

theorem groupTokens_throws_on_inherited_name:
  "groupTokens lc [exTok ''c1'' ''constructor/Primary''] = Inl TypeError
   \<and> groupTokens lc [exTok ''c1'' ''Text/toString/Primary''] = Inl TypeError
   \<and> groupTokens lc [exTok ''c1'' ''Text/__none__/Deep'', exTok ''c2'' ''Text/Primary''] =
       Inr [Grouped ''Text''
              [Subgroup None [exTok ''c1'' ''Text/__none__/Deep'', exTok ''c2'' ''Text/Primary'']]]"
  by (simp add: normalizer_eval)

text \<open>
  The catalog of the specification's scenario, the display names, and a catalog with
  two groups and named subgroups.
\<close>

theorem groupTokens_scenario:
  "groupTokens lc [exTok ''c1'' ''Text/Primary'', exTok ''c2'' ''Text/Secondary'',
                   exTok ''c3'' ''Primary Blue''] =
     Inr [Grouped ''Text''
            [Subgroup None [exTok ''c1'' ''Text/Primary'', exTok ''c2'' ''Text/Secondary'']],
          Ungrouped [exTok ''c3'' ''Primary Blue'']]
   \<and> map (\<lambda>t. displayName (parseTokenName t))
       [exTok ''c1'' ''Text/Primary'', exTok ''c2'' ''Text/Secondary'', exTok ''c3'' ''Primary Blue'',
        exTok ''t1'' ''Body/Bold/Body 4''] =
     [''Primary'', ''Secondary'', ''Primary Blue'', ''Body 4'']
   \<and> groupTokens exLocaleCompare
       [exTok ''t1'' ''Body/Regular/Body 1'', exTok ''t2'' ''Heading/H1'',
        exTok ''t3'' ''Body/Bold/Body 4'', exTok ''t4'' ''Body/Caption''] =
     Inr [Grouped ''Body''
            [Subgroup None [exTok ''t4'' ''Body/Caption''],
             Subgroup (Some ''Bold'') [exTok ''t3'' ''Body/Bold/Body 4''],
             Subgroup (Some ''Regular'') [exTok ''t1'' ''Body/Regular/Body 1'']],
          Grouped ''Heading'' [Subgroup None [exTok ''t2'' ''Heading/H1'']]]"
  by (simp add: normalizer_eval exLocaleCompare_def)

end
